theory Spec2Isabelle
  imports Complex_Main "HOL-Library.AList" "HOL-Library.Multiset" "HOL-Library.Log_Nat"
begin

section \<open>Search orchestration of script.js: data model\<close>

text \<open>
  Numbers of the script are JavaScript doubles (IEEE 754 binary64).  Timestamps of
  \<open>Date.now()\<close> are whole milliseconds and are modelled as \<open>int\<close>; their differences
  are exact.  Every other number is a rational, and every arithmetic operation of the
  script on such numbers is followed by \<open>fl\<close>, the rounding of its exact result to the
  nearest double, ties to the even significand.  Comparisons are exact.
\<close>

text \<open>Rounding to the nearest integer, ties to even.\<close>

definition round_even :: "rat \<Rightarrow> int" where
  "round_even q =
     (let f = \<lfloor>q\<rfloor>; d = q - of_int f
      in if d < 1 / 2 then f else if 1 / 2 < d then f + 1 else if even f then f else f + 1)"

definition pow2 :: "int \<Rightarrow> rat" where
  "pow2 k = (if 0 \<le> k then 2 ^ nat k else 1 / 2 ^ nat (- k))"

text \<open>
  The double nearest to \<open>x\<close>.  \<open>e\<close> is the exponent of \<open>x\<close>, at least that of the
  subnormal numbers, and a double is a multiple of \<open>2 ^ (e - 52)\<close> with a significand of
  53 bits.  Overflow to Infinity is left out: no number of the script comes near
  \<open>2 ^ 1024\<close>.
\<close>

definition fl :: "rat \<Rightarrow> rat" where
  "fl x =
     (let a = \<bar>x\<bar>;
          e = max (bitlen \<lfloor>a * 2 ^ 1074\<rfloor> - 1075) (- 1022);
          ulp = pow2 (e - 52)
      in sgn x * of_int (round_even (a / ulp)) * ulp)"

text \<open>One candidate of the service's \<open>result\<close> array; only \<open>similarity\<close> is read
  by the code modelled here, \<open>filename\<close> stands for the rest of the object.\<close>

record rawmatch =
  similarity :: rat
  filename :: string

text \<open>A JSON value as far as its truthiness matters (the \<open>error\<close> member of a body).
  \<open>JOther\<close> is any array or object: always truthy.\<close>

datatype jsval = JUndefined | JNull | JBool bool | JNum rat | JStr string | JOther

fun js_truthy :: "jsval \<Rightarrow> bool" where
  "js_truthy JUndefined = False"
| "js_truthy JNull = False"
| "js_truthy (JBool b) = b"
| "js_truthy (JNum x) = (x \<noteq> 0)"
| "js_truthy (JStr s) = (s \<noteq> [])"
| "js_truthy JOther = True"

text \<open>
  Values that \<open>performSearch\<close> can throw.  \<open>Rejection name message\<close> is an error raised
  by the platform (a rejected \<open>fetch\<close>, \<open>response.json()\<close> or \<open>crypto.subtle.digest\<close>);
  \<open>ApiRequestFailed\<close> is line 958, \<open>ServiceError\<close> is line 965, and
  \<open>NullBodyTypeError\<close> is the TypeError of reading \<open>data.error\<close> when the body is
  the JSON value \<open>null\<close>.
\<close>

datatype js_error =
    Rejection string string
  | ApiRequestFailed nat string
  | ServiceError jsval
  | NullBodyTypeError

fun error_name :: "js_error \<Rightarrow> string" where
  "error_name (Rejection n m) = n"
| "error_name (ApiRequestFailed st txt) = ''Error''"
| "error_name (ServiceError v) = ''Error''"
| "error_name NullBodyTypeError = ''TypeError''"

text \<open>
  What \<open>await response.json()\<close> gives: a rejection (body not parseable, or the read was
  aborted), the value \<open>null\<close>, or any other value, of which the code reads the members
  \<open>error\<close> and \<open>result\<close>.  A member that is missing is \<open>JUndefined\<close> for \<open>error\<close>
  and \<open>None\<close> for \<open>result\<close>; a \<open>result\<close> that is present is the array of matches of the
  service's protocol (a falsy \<open>result\<close> behaves as a missing one).
\<close>

datatype body_outcome =
    JsonRejected js_error
  | JsonNull
  | JsonValue jsval "rawmatch list option"

record response =
  status :: nat
  statusText :: string
  json :: body_outcome

text \<open>\<open>response.ok\<close> of the Fetch standard: the status is in the range 200 to 299.\<close>

definition ok :: "response \<Rightarrow> bool" where
  "ok r = (200 \<le> status r \<and> status r \<le> 299)"

datatype fetch_outcome = FetchRejected js_error | FetchResolved response

text \<open>Everything one iteration of the retry loop reads from the outside world.  Every
  call of \<open>fetch\<close> is taken to settle, with a response or a rejection.\<close>

record attempt_env =
  fetched :: fetch_outcome
  requestStart :: rat
  requestEnd :: rat
  dateNow :: int
  random :: rat

record js_file =
  file_type :: string
  file_size :: nat

record cache_entry =
  data :: "rawmatch list"
  timestamp :: int
  responseTime :: rat

subsection \<open>The JavaScript Map\<close>

text \<open>A \<open>Map\<close> keeps its entries in insertion order, one entry per key: \<open>set\<close> on a
  key that is present replaces the value in place, on a new key it appends.\<close>

type_synonym 'v js_map = "(string \<times> 'v) list"

definition map_get :: "'v js_map \<Rightarrow> string \<Rightarrow> 'v option" where
  "map_get m k = map_of m k"

definition map_set :: "'v js_map \<Rightarrow> string \<Rightarrow> 'v \<Rightarrow> 'v js_map" where
  "map_set m k v = AList.update k v m"

definition map_delete :: "'v js_map \<Rightarrow> string \<Rightarrow> 'v js_map" where
  "map_delete m k = AList.delete k m"

record metrics =
  cacheHits :: nat
  cacheMisses :: nat
  avgResponseTime :: rat

record app_state =
  currentFile :: "js_file option"
  urlInput :: "string option"
  searchCache :: "cache_entry js_map"
  metrics :: metrics

definition CACHE_EXPIRY :: int where
  "CACHE_EXPIRY = 3600000"

definition MAX_FILE_SIZE :: nat where
  "MAX_FILE_SIZE = 25 * 1024 * 1024"

definition SUPPORTED_FORMATS :: "string list" where
  "SUPPORTED_FORMATS =
     [''image/jpeg'', ''image/jpg'', ''image/png'',
      ''image/gif'', ''image/webp'', ''image/bmp'', ''image/avif'']"

definition IMAGE_QUALITY_THRESHOLD :: rat where
  "IMAGE_QUALITY_THRESHOLD = 8 / 10"

section \<open>generateCacheKey\<close>

text \<open>Decimal digits of a number, as a template literal prints \<open>file.size\<close>.\<close>

fun string_of_nat :: "nat \<Rightarrow> string" where
  "string_of_nat n =
     (if n < 10 then [''0123456789'' ! n]
      else string_of_nat (n div 10) @ [''0123456789'' ! (n mod 10)])"

declare string_of_nat.simps [simp del]

text \<open>
  \<open>hashFile\<close> is the outcome of hashing the current file in this run: the hexadecimal
  SHA-256 digest, or the error with which \<open>file.arrayBuffer()\<close> or
  \<open>crypto.subtle.digest\<close> failed.  \<open>urlInput\<close> is \<open>None\<close> when the input element is
  missing, otherwise its value.
\<close>

definition generateCacheKey :: "app_state \<Rightarrow> js_error + string \<Rightarrow> js_error + string" where
  "generateCacheKey app hashFile =
     (case currentFile app of
        Some f \<Rightarrow>
          (case hashFile of
             Inl e \<Rightarrow> Inl e
           | Inr hash \<Rightarrow> Inr (''file_'' @ hash @ ''_'' @ string_of_nat (file_size f)))
      | None \<Rightarrow>
          (case urlInput app of
             Some v \<Rightarrow> if v \<noteq> [] then Inr (''url_'' @ v) else Inr ''unknown''
           | None \<Rightarrow> Inr ''unknown''))"

section \<open>performSearch\<close>

record search_env =
  hashed :: "js_error + string"
  probeNow :: int
  attempts :: "nat \<Rightarrow> attempt_env"

datatype search_outcome =
    Threw js_error
  | Returned "rawmatch list"
  | ReturnedUndefined

record search_run =
  outcome :: search_outcome
  final :: app_state
  fetches :: nat
  delays :: "rat list"

definition maxRetries :: nat where
  "maxRetries = 3"

text \<open>
  The request of one attempt, lines 949 to 968: the error thrown, or \<open>results\<close>.
\<close>

definition fetchResults :: "attempt_env \<Rightarrow> js_error + rawmatch list" where
  "fetchResults a =
     (case fetched a of
        FetchRejected e \<Rightarrow> Inl e
      | FetchResolved response \<Rightarrow>
          if \<not> ok response
          then Inl (ApiRequestFailed (status response) (statusText response))
          else
            (case json response of
               JsonRejected e \<Rightarrow> Inl e
             | JsonNull \<Rightarrow> Inl NullBodyTypeError
             | JsonValue err res \<Rightarrow>
                 if js_truthy err then Inl (ServiceError err)
                 else Inr (case res of Some ms \<Rightarrow> ms | None \<Rightarrow> [])))"

text \<open>
  The body of the \<open>try\<close> block, lines 943 to 982: the error it throws, or the results it
  returns together with the application state after the cache write and the metrics
  update.
\<close>

definition tryBody :: "attempt_env \<Rightarrow> string \<Rightarrow> app_state \<Rightarrow> js_error + (rawmatch list \<times> app_state)" where
  "tryBody a cacheKey app =
     (case fetchResults a of
        Inl e \<Rightarrow> Inl e
      | Inr results \<Rightarrow>
          (let responseTime = fl (requestEnd a - requestStart a);
               cache = (if length results > 0
                        then map_set (searchCache app) cacheKey
                               \<lparr>data = results, timestamp = dateNow a,
                                responseTime = responseTime\<rparr>
                        else searchCache app);
               m = metrics app
           in Inr (results,
                   app\<lparr>searchCache := cache,
                       metrics := m\<lparr>avgResponseTime :=
                         fl (fl (avgResponseTime m + responseTime) / 2)\<rparr>\<rparr>)))"

text \<open>
  The delay of line 996, from \<open>attempt\<close> (already incremented) and the value of
  \<open>Math.random()\<close>.
\<close>

definition backoffDelay :: "nat \<Rightarrow> rat \<Rightarrow> rat" where
  "backoffDelay attempt rnd = fl (fl (2 ^ attempt * 1000) + fl (rnd * 1000))"

text \<open>
  The \<open>while\<close> loop, lines 941 to 999.  \<open>n\<close> counts the calls of \<open>fetch\<close> made so
  far (the \<open>n\<close>-th call gets the \<open>n\<close>-th outcome of the environment), \<open>ds\<close> collects
  the arguments of \<open>sleep\<close>.
\<close>

function retryLoop ::
  "search_env \<Rightarrow> string \<Rightarrow> nat \<Rightarrow> app_state \<Rightarrow> nat \<Rightarrow> rat list \<Rightarrow> search_run" where
  "retryLoop env cacheKey attempt app n ds =
     (if attempt < maxRetries then
        (case tryBody (attempts env n) cacheKey app of
           Inr (results, app') \<Rightarrow>
             \<lparr>outcome = Returned results, final = app', fetches = Suc n, delays = ds\<rparr>
         | Inl error \<Rightarrow>
             if error_name error = ''AbortError''
             then \<lparr>outcome = Threw error, final = app, fetches = Suc n, delays = ds\<rparr>
             else if Suc attempt = maxRetries
             then \<lparr>outcome = Threw error, final = app, fetches = Suc n, delays = ds\<rparr>
             else retryLoop env cacheKey (Suc attempt) app (Suc n)
                    (ds @ [backoffDelay (Suc attempt) (random (attempts env n))]))
      else \<lparr>outcome = ReturnedUndefined, final = app, fetches = n, delays = ds\<rparr>)"
  by pat_completeness auto
termination
  by (relation "measure (\<lambda>(env, cacheKey, attempt, app, n, ds). maxRetries - attempt)") auto

declare retryLoop.simps [simp del]

text \<open>\<open>this.metrics.cacheMisses++\<close>, line 939.\<close>

definition countMiss :: "app_state \<Rightarrow> app_state" where
  "countMiss app = app\<lparr>metrics := (metrics app)\<lparr>cacheMisses := Suc (cacheMisses (metrics app))\<rparr>\<rparr>"

text \<open>\<open>this.metrics.cacheHits++\<close>, line 934.\<close>

definition countHit :: "app_state \<Rightarrow> app_state" where
  "countHit app = app\<lparr>metrics := (metrics app)\<lparr>cacheHits := Suc (cacheHits (metrics app))\<rparr>\<rparr>"

definition performSearch :: "app_state \<Rightarrow> search_env \<Rightarrow> search_run" where
  "performSearch app env =
     (case generateCacheKey app (hashed env) of
        Inl e \<Rightarrow> \<lparr>outcome = Threw e, final = app, fetches = 0, delays = []\<rparr>
      | Inr cacheKey \<Rightarrow>
          (case map_get (searchCache app) cacheKey of
             Some cachedResult \<Rightarrow>
               if probeNow env - timestamp cachedResult < CACHE_EXPIRY
               then \<lparr>outcome = Returned (data cachedResult), final = countHit app,
                     fetches = 0, delays = []\<rparr>
               else retryLoop env cacheKey 0 (countMiss app) 0 []
           | None \<Rightarrow> retryLoop env cacheKey 0 (countMiss app) 0 []))"

section \<open>cleanupCache\<close>

text \<open>
  \<open>Array.prototype.sort\<close> with a comparison function: a stable sort that puts \<open>a\<close>
  before \<open>b\<close> when \<open>cmp a b\<close> is negative and keeps their order when it is zero.
\<close>

fun js_insert :: "('a \<Rightarrow> 'a \<Rightarrow> 'b::linordered_idom) \<Rightarrow> 'a \<Rightarrow> 'a list \<Rightarrow> 'a list" where
  "js_insert cmp x [] = [x]"
| "js_insert cmp x (y # ys) = (if cmp x y \<le> 0 then x # y # ys else y # js_insert cmp x ys)"

fun js_sort :: "('a \<Rightarrow> 'a \<Rightarrow> 'b::linordered_idom) \<Rightarrow> 'a list \<Rightarrow> 'a list" where
  "js_sort cmp [] = []"
| "js_sort cmp (x # xs) = js_insert cmp x (js_sort cmp xs)"

text \<open>
  The first pass, lines 1734 to 1739.  The loop visits every entry of the map once, in
  insertion order, and deletes the entry it is at when the test holds.
\<close>

definition cleanupCache_expired :: "int \<Rightarrow> cache_entry js_map \<Rightarrow> cache_entry js_map" where
  "cleanupCache_expired now cache =
     fold (\<lambda>(key, value) m.
             if now - timestamp value > CACHE_EXPIRY then map_delete m key else m)
          cache cache"

text \<open>The second pass, lines 1741 to 1747.\<close>

definition cleanupCache_limit :: "cache_entry js_map \<Rightarrow> cache_entry js_map" where
  "cleanupCache_limit cache =
     (if length cache > 100 then
        (let entries = js_sort (\<lambda>a b. timestamp (snd a) - timestamp (snd b)) cache;
             toDelete = take (length entries - 100) entries
         in fold (\<lambda>(key, value) m. map_delete m key) toDelete cache)
      else cache)"

definition cleanupCache :: "int \<Rightarrow> cache_entry js_map \<Rightarrow> cache_entry js_map" where
  "cleanupCache now cache = cleanupCache_limit (cleanupCache_expired now cache)"

section \<open>isValidImageFile\<close>

text \<open>One pixel of the canvas: red, green, blue, alpha.\<close>

type_synonym pixel = "nat \<times> nat \<times> nat \<times> nat"

text \<open>
  The loop of lines 531 to 543 over the pixels; \<open>prev\<close> is the brightness of the pixel
  before (\<open>None\<close> at the first pixel, where \<open>i > 0\<close> fails).
\<close>

fun scanPixels :: "pixel list \<Rightarrow> rat option \<Rightarrow> rat \<Rightarrow> rat \<Rightarrow> rat \<times> rat" where
  "scanPixels [] prev sharpness contrast = (sharpness, contrast)"
| "scanPixels ((r, g, b, al) # ps) prev sharpness contrast =
     (let brightness = fl ((of_nat r + of_nat g + of_nat b) / 3);
          sharpness' = (case prev of
                          Some prevBrightness \<Rightarrow>
                            fl (sharpness + \<bar>fl (brightness - prevBrightness)\<bar>)
                        | None \<Rightarrow> sharpness)
      in scanPixels ps (Some brightness) sharpness' (fl (contrast + brightness)))"

text \<open>
  \<open>assessImageQuality\<close>: the argument is the decoded pixel data, \<open>None\<close> when the image
  fails to load (\<open>onerror\<close>).  The result \<open>None\<close> is NaN, which the division
  \<open>0 / 0\<close> gives when there is no pixel.
\<close>

definition assessImageQuality :: "pixel list option \<Rightarrow> rat option" where
  "assessImageQuality decoded =
     (case decoded of
        None \<Rightarrow> Some (5 / 10)
      | Some pixels \<Rightarrow>
          (if pixels = [] then None
           else
             (let (sharpness, contrast) = scanPixels pixels None 0 0;
                  avgSharpness = fl (sharpness / of_nat (length pixels));
                  avgBrightness = fl (contrast / of_nat (length pixels))
              in Some (min 1 (fl (fl (avgSharpness / 50) * fl (avgBrightness / 128)))))))"

datatype status = UnsupportedFileType | FileTooLarge | LowQuality

record validation =
  accepted :: bool
  statuses :: "status list"

text \<open>
  \<open>isValidImageFile\<close>: \<open>integrity\<close> tells whether \<open>validateImageIntegrity\<close> resolves
  (the image loads) or rejects; \<open>decoded\<close> is what \<open>assessImageQuality\<close> decodes.
  The statuses are the calls of \<open>showStatus\<close>.  Both promises are taken to settle: an
  image that loads can be drawn and read back from the canvas.
\<close>

definition isValidImageFile :: "js_file \<Rightarrow> bool \<Rightarrow> pixel list option \<Rightarrow> validation" where
  "isValidImageFile f integrity decoded =
     (if file_type f \<notin> set SUPPORTED_FORMATS
      then \<lparr>accepted = False, statuses = [UnsupportedFileType]\<rparr>
      else if file_size f > MAX_FILE_SIZE
      then \<lparr>accepted = False, statuses = [FileTooLarge]\<rparr>
      else if \<not> integrity
      then \<lparr>accepted = True, statuses = []\<rparr>
      else
        (case assessImageQuality decoded of
           Some quality \<Rightarrow>
             if quality < IMAGE_QUALITY_THRESHOLD
             then \<lparr>accepted = True, statuses = [LowQuality]\<rparr>
             else \<lparr>accepted = True, statuses = []\<rparr>
         | None \<Rightarrow> \<lparr>accepted = True, statuses = []\<rparr>))"

section \<open>displayResults\<close>

text \<open>
  \<open>filteredResults\<close> of lines 1045 to 1048, the list that is rendered.  A similarity and
  the literal 0.1 are read as the decimal numbers they are written as, which keeps their
  order; of the comparator's difference only the sign is used, which rounding keeps.
\<close>

definition displayResults :: "rawmatch list \<Rightarrow> rawmatch list" where
  "displayResults results =
     take 10 (js_sort (\<lambda>a b. similarity b - similarity a)
                (filter (\<lambda>result. similarity result > 1 / 10) results))"

section \<open>Notions used in the statements\<close>

text \<open>
  The failures that the specification calls retryable: a response whose status is not in
  200 to 299, a \<open>fetch\<close> that rejects with anything but an abort, and a body whose
  \<open>error\<close> member is truthy (the test of line 964).
\<close>

definition retryableFailure :: "fetch_outcome \<Rightarrow> bool" where
  "retryableFailure f =
     (case f of
        FetchRejected e \<Rightarrow> error_name e \<noteq> ''AbortError''
      | FetchResolved r \<Rightarrow>
          \<not> ok r \<or> (case json r of JsonValue err res \<Rightarrow> js_truthy err | _ \<Rightarrow> False))"

text \<open>The condition of line 933: the key has an entry and it is younger than the expiry.\<close>

definition cacheFresh :: "app_state \<Rightarrow> string \<Rightarrow> int \<Rightarrow> bool" where
  "cacheFresh app k now =
     (case map_get (searchCache app) k of
        Some cachedResult \<Rightarrow> now - timestamp cachedResult < CACHE_EXPIRY
      | None \<Rightarrow> False)"

text \<open>The delay of line 996 after the failure of the \<open>i\<close>-th call of \<open>fetch\<close> (counted
  from 0), when \<open>attempt\<close> has just become \<open>i + 1\<close>.\<close>

definition backoff :: "search_env \<Rightarrow> nat \<Rightarrow> rat" where
  "backoff env i = backoffDelay (Suc i) (random (attempts env i))"

text \<open>The sort key of line 1744.\<close>

definition by_time :: "string \<times> cache_entry \<Rightarrow> int" where
  "by_time e = timestamp (snd e)"

text \<open>The cache after a sequence of calls of \<open>searchCache.set\<close>, starting from \<open>new Map()\<close>.\<close>

definition inserted :: "(string \<times> cache_entry) list \<Rightarrow> cache_entry js_map" where
  "inserted ins = fold (\<lambda>(key, value) m. map_set m key value) ins []"

section \<open>Concrete runs\<close>

text \<open>
  A search by URL with an empty cache, outcomes of \<open>fetch\<close> of each kind, and
  environments that give the first, second and third call of \<open>fetch\<close> one outcome each.
\<close>

definition demo_match :: rawmatch where
  "demo_match = \<lparr>similarity = 95 / 100, filename = ''ep3.mp4''\<rparr>"

definition demo_app :: app_state where
  "demo_app = \<lparr>currentFile = None, urlInput = Some ''http://x.com/img.png'', searchCache = [],
                metrics = \<lparr>cacheHits = 0, cacheMisses = 0, avgResponseTime = 0\<rparr>\<rparr>"

definition demo_file_app :: app_state where
  "demo_file_app = demo_app\<lparr>currentFile := Some \<lparr>file_type = ''image/png'', file_size = 2048\<rparr>\<rparr>"

definition attempt_of :: "fetch_outcome \<Rightarrow> rat \<Rightarrow> attempt_env" where
  "attempt_of f r = \<lparr>fetched = f, requestStart = 10, requestEnd = 130, dateNow = 5000, random = r\<rparr>"

definition resp503 :: fetch_outcome where
  "resp503 = FetchResolved \<lparr>status = 503, statusText = ''Service Unavailable'', json = JsonNull\<rparr>"

definition netFailure :: fetch_outcome where
  "netFailure = FetchRejected (Rejection ''TypeError'' ''Failed to fetch'')"

definition serviceError :: fetch_outcome where
  "serviceError = FetchResolved \<lparr>status = 200, statusText = ''OK'',
                     json = JsonValue (JStr ''Search queue is full'') None\<rparr>"

definition aborted :: fetch_outcome where
  "aborted = FetchRejected (Rejection ''AbortError'' ''The user aborted a request.'')"

definition malformed :: fetch_outcome where
  "malformed = FetchResolved \<lparr>status = 200, statusText = ''OK'',
                  json = JsonRejected (Rejection ''SyntaxError'' ''Unexpected token'')\<rparr>"

definition found :: fetch_outcome where
  "found = FetchResolved \<lparr>status = 200, statusText = ''OK'',
              json = JsonValue (JStr []) (Some [demo_match])\<rparr>"

definition noFields :: fetch_outcome where
  "noFields = FetchResolved \<lparr>status = 200, statusText = ''OK'', json = JsonValue JUndefined None\<rparr>"

definition env_of :: "(js_error + string) \<Rightarrow> int \<Rightarrow> fetch_outcome \<Rightarrow> fetch_outcome \<Rightarrow> fetch_outcome \<Rightarrow> search_env" where
  "env_of h now f0 f1 f2 =
     \<lparr>hashed = h, probeNow = now,
      attempts = (\<lambda>i. if i = 0 then attempt_of f0 (1 / 4)
                      else if i = 1 then attempt_of f1 (1 / 2)
                      else attempt_of f2 (3 / 4))\<rparr>"

definition env_all_fail :: search_env where
  "env_all_fail = env_of (Inr []) 4000 resp503 netFailure serviceError"

definition env_abort_second :: search_env where
  "env_abort_second = env_of (Inr []) 4000 netFailure aborted found"

definition env_malformed_first :: search_env where
  "env_malformed_first = env_of (Inr []) 4000 malformed found found"

definition env_hash_fail :: search_env where
  "env_hash_fail = env_of (Inl (Rejection ''TypeError'' ''crypto.subtle is undefined'')) 4000 found found found"

definition env_no_fields :: search_env where
  "env_no_fields = env_of (Inr []) 4000 noFields found found"

definition env_found :: search_env where
  "env_found = env_of (Inr []) 4000 found found found"

definition demo_app_cached :: app_state where
  "demo_app_cached =
     demo_app\<lparr>searchCache := [(''url_http://x.com/img.png'',
                    \<lparr>data = [demo_match], timestamp = 5000, responseTime = 120\<rparr>)],
              metrics := \<lparr>cacheHits = 0, cacheMisses = 0, avgResponseTime = 60\<rparr>\<rparr>"

definition env_expired :: search_env where
  "env_expired = env_of (Inr []) 3605000 found found found"

definition nullBody :: fetch_outcome where
  "nullBody = FetchResolved \<lparr>status = 200, statusText = ''OK'', json = JsonNull\<rparr>"

definition env_null :: search_env where
  "env_null = env_of (Inr []) 4000 nullBody nullBody nullBody"

text \<open>101 entries under distinct keys, all younger than the expiry at time 0.\<close>

definition big_cache :: "cache_entry js_map" where
  "big_cache =
     map (\<lambda>i. (replicate (Suc i) CHR ''k'',
               \<lparr>data = [demo_match], timestamp = int ((i * 37 + 50) mod 101), responseTime = 0\<rparr>))
         [0..<101]"

text \<open>One entry, written at time 0.\<close>

definition boundary_cache :: "cache_entry js_map" where
  "boundary_cache = [(''url_http://x.com/img.png'',
                      \<lparr>data = [demo_match], timestamp = 0, responseTime = 120\<rparr>)]"

definition demo_results :: "rawmatch list" where
  "demo_results =
     [\<lparr>similarity = 5 / 100, filename = ''a''\<rparr>,
      \<lparr>similarity = 40 / 100, filename = ''b''\<rparr>,
      \<lparr>similarity = 1 / 10, filename = ''c''\<rparr>,
      \<lparr>similarity = 95 / 100, filename = ''d''\<rparr>,
      \<lparr>similarity = 40 / 100, filename = ''e''\<rparr>]"

text \<open>Three responses 503, with \<open>Math.random()\<close> at its largest value each time.\<close>

definition env_max_jitter :: search_env where
  "env_max_jitter =
     \<lparr>hashed = Inr [], probeNow = 4000,
      attempts = (\<lambda>i. \<lparr>fetched = resp503, requestStart = 10, requestEnd = 130,
                         dateNow = 5000, random = 1 - 1 / 2 ^ 52\<rparr>)\<rparr>"

section \<open>Rounding to doubles\<close>

lemma round_even_le: "q \<le> of_int B \<Longrightarrow> round_even q \<le> B"
proof -
  assume q: "q \<le> of_int B"
  have f: "\<lfloor>q\<rfloor> \<le> B" using q by (simp add: floor_le_iff)
  have "\<lfloor>q\<rfloor> + 1 \<le> B" if "q - of_int \<lfloor>q\<rfloor> \<noteq> 0"
  proof -
    have "of_int \<lfloor>q\<rfloor> \<le> q" by (rule of_int_floor_le)
    moreover have "of_int \<lfloor>q\<rfloor> \<noteq> q" using that by auto
    ultimately have "of_int \<lfloor>q\<rfloor> < q" by (rule order.not_eq_order_implies_strict [rotated])
    then have "of_int \<lfloor>q\<rfloor> < (of_int B :: rat)" using q by simp
    then show ?thesis by simp
  qed
  then show ?thesis using f by (auto simp: round_even_def Let_def)
qed

lemma round_even_ge: "of_int A \<le> q \<Longrightarrow> A \<le> round_even q"
proof -
  assume "of_int A \<le> q"
  then have "A \<le> \<lfloor>q\<rfloor>" by (simp add: le_floor_iff)
  then show ?thesis by (auto simp: round_even_def Let_def)
qed

lemma fl_zero: "fl 0 = 0"
  by (simp add: fl_def)

lemma fl_between_ints:
  assumes x: "0 \<le> x" "x < 2 ^ 53" and A: "of_int A \<le> x" and B: "x \<le> of_int B"
  shows "of_int A \<le> fl x \<and> fl x \<le> of_int B"
proof (cases "x = 0")
  case True
  then show ?thesis using A B by (simp add: fl_zero)
next
  case False
  then have pos: "0 < x" using x(1) by simp
  have ax: "\<bar>x\<bar> = x" and sg: "sgn x = 1" using pos by simp_all
  define m where "m = \<lfloor>\<bar>x\<bar> * 2 ^ 1074\<rfloor>"
  define e where "e = max (bitlen m - 1075) (- 1022)"
  have "x * 2 ^ 1074 < 2 ^ 53 * 2 ^ 1074" using x(2) by simp
  also have "\<dots> = (2::rat) ^ 1127" by (simp flip: power_add)
  finally have "x * 2 ^ 1074 < of_int (2 ^ 1127)" by simp
  then have "m < 2 ^ 1127" unfolding m_def ax by (simp only: floor_less_iff)
  then have "bitlen m \<le> 1127" by (simp add: bitlen_le_iff_power)
  then have e52: "e \<le> 52" by (simp add: e_def)
  define j where "j = nat (52 - e)"
  have ulp: "pow2 (e - 52) = 1 / 2 ^ j"
  proof (cases "e = 52")
    case True
    then show ?thesis by (simp add: pow2_def j_def)
  next
    case False
    then have "e - 52 < 0" using e52 by simp
    then show ?thesis by (simp add: pow2_def j_def)
  qed
  have "fl x = sgn x * of_int (round_even (\<bar>x\<bar> / pow2 (e - 52))) * pow2 (e - 52)"
    unfolding fl_def Let_def e_def m_def by (rule refl)
  then have flx: "fl x = of_int (round_even (x * 2 ^ j)) / 2 ^ j"
    unfolding ax sg ulp by simp
  have "of_int (A * 2 ^ j) \<le> x * 2 ^ j" using A by simp
  then have lo: "A * 2 ^ j \<le> round_even (x * 2 ^ j)" by (rule round_even_ge)
  have "x * 2 ^ j \<le> of_int (B * 2 ^ j)" using B by simp
  then have hi: "round_even (x * 2 ^ j) \<le> B * 2 ^ j" by (rule round_even_le)
  have "(of_int (A * 2 ^ j) :: rat) \<le> of_int (round_even (x * 2 ^ j))"
    using lo by (simp only: of_int_le_iff)
  then have "(of_int A :: rat) * 2 ^ j \<le> of_int (round_even (x * 2 ^ j))" by simp
  then have lo': "(of_int A :: rat) \<le> of_int (round_even (x * 2 ^ j)) / 2 ^ j"
    by (simp add: pos_le_divide_eq)
  have "(of_int (round_even (x * 2 ^ j)) :: rat) \<le> of_int (B * 2 ^ j)"
    using hi by (simp only: of_int_le_iff)
  then have "(of_int (round_even (x * 2 ^ j)) :: rat) \<le> of_int B * 2 ^ j" by simp
  then have hi': "(of_int (round_even (x * 2 ^ j)) :: rat) / 2 ^ j \<le> of_int B"
    by (simp add: pos_divide_le_eq)
  show ?thesis unfolding flx using lo' hi' by simp
qed

lemma fl_of_int: "0 \<le> n \<Longrightarrow> n < 2 ^ 53 \<Longrightarrow> fl (of_int n) = of_int n"
proof -
  assume n: "0 \<le> n" "n < 2 ^ 53"
  have "(of_int n :: rat) < of_int (2 ^ 53)" using n(2) by (simp only: of_int_less_iff)
  then have "(of_int n :: rat) < 2 ^ 53" by simp
  then have "of_int n \<le> fl (of_int n) \<and> fl (of_int n) \<le> of_int n"
    using n(1) by (intro fl_between_ints) simp_all
  then show ?thesis by simp
qed

lemma fl_numeral: "(numeral n :: int) < 2 ^ 53 \<Longrightarrow> fl (numeral n) = numeral n"
  using fl_of_int [of "numeral n"] by simp

lemma pow2_scale: "0 \<le> e + int s \<Longrightarrow> pow2 e * 2 ^ s = 2 ^ nat (e + int s)"
proof (cases "0 \<le> e")
  case True
  then have "nat (e + int s) = nat e + s" by simp
  then show ?thesis using True by (simp add: pow2_def power_add)
next
  case False
  assume s: "0 \<le> e + int s"
  have le: "nat (- e) \<le> s" using s by simp
  have "nat (e + int s) = s - nat (- e)" using s False by simp
  then have "(2::rat) ^ nat (e + int s) = 2 ^ s / 2 ^ nat (- e)"
    using le by (simp add: power_diff)
  then show ?thesis using False by (simp add: pow2_def)
qed

lemma bitlen_scaled:
  assumes s: "0 \<le> e + int s" and lo: "pow2 e \<le> a" and hi: "a < pow2 (e + 1)"
  shows "bitlen \<lfloor>a * 2 ^ s\<rfloor> = e + int s + 1"
proof -
  define n where "n = nat (e + int s)"
  have n: "int n = e + int s" using s by (simp add: n_def)
  have "pow2 e * 2 ^ s \<le> a * 2 ^ s" using lo by simp
  then have "(2::rat) ^ n \<le> a * 2 ^ s" using pow2_scale [OF s] by (simp add: n_def)
  then have "of_int (2 ^ n) \<le> a * 2 ^ s" by simp
  then have m_lo: "2 ^ n \<le> \<lfloor>a * 2 ^ s\<rfloor>" by (simp only: le_floor_iff)
  have s1: "0 \<le> (e + 1) + int s" using s by simp
  have "nat (e + 1 + int s) = Suc n" using s by (simp add: n_def)
  then have "pow2 (e + 1) * 2 ^ s = 2 ^ Suc n" using pow2_scale [OF s1] by simp
  moreover have "a * 2 ^ s < pow2 (e + 1) * 2 ^ s" using hi by simp
  ultimately have "a * 2 ^ s < of_int (2 ^ Suc n)" by simp
  then have m_hi: "\<lfloor>a * 2 ^ s\<rfloor> < 2 ^ Suc n" by (simp only: floor_less_iff)
  have "nat (int n + 1) = Suc n" by simp
  then have "bitlen \<lfloor>a * 2 ^ s\<rfloor> \<le> int n + 1"
    using m_hi bitlen_le_iff_power [of "\<lfloor>a * 2 ^ s\<rfloor>" "int n + 1"] by simp
  moreover have "nat (int n + 1) - 1 = n" by simp
  then have "int n + 1 \<le> bitlen \<lfloor>a * 2 ^ s\<rfloor>"
    using m_lo bitlen_ge_iff_power [of "int n + 1" "\<lfloor>a * 2 ^ s\<rfloor>"] by simp
  ultimately show ?thesis using n by simp
qed

lemma fl_binade:
  assumes pos: "0 < x" and e: "- 1022 \<le> e" and lo: "pow2 e \<le> x" and hi: "x < pow2 (e + 1)"
  shows "fl x = of_int (round_even (x / pow2 (e - 52))) * pow2 (e - 52)"
proof -
  have ax: "\<bar>x\<bar> = x" and sg: "sgn x = 1" using pos by simp_all
  have "0 \<le> e + int 1074" using e by simp
  then have "bitlen \<lfloor>x * 2 ^ 1074\<rfloor> = e + int 1074 + 1"
    using lo hi by (rule bitlen_scaled)
  then have b: "max (bitlen \<lfloor>x * 2 ^ 1074\<rfloor> - 1075) (- 1022) = e"
    using e by simp
  show ?thesis
    unfolding fl_def Let_def ax sg b by simp
qed

lemma floor_rat_numeral:
  "\<lfloor>(numeral a :: rat) / numeral b\<rfloor> = numeral a div numeral b"
  using floor_divide_of_int_eq [of "numeral a" "numeral b", where ?'a = rat] by simp

lemma max_jitter_1000: "fl ((1 - 1 / 2 ^ 52) * 1000) = 1000 - 1 / 2 ^ 42"
proof -
  have "fl ((1 - 1 / 2 ^ 52) * 1000)
      = of_int (round_even ((1 - 1 / 2 ^ 52) * 1000 / pow2 (9 - 52))) * pow2 (9 - 52)"
    by (rule fl_binade) (simp_all add: pow2_def)
  also have "\<dots> = 1000 - 1 / 2 ^ 42"
    by (simp add: pow2_def round_even_def Let_def floor_rat_numeral)
  finally show ?thesis .
qed

lemma max_jitter_3000: "fl (2000 + (1000 - 1 / 2 ^ 42)) = 3000"
proof -
  have "fl (2000 + (1000 - 1 / 2 ^ 42))
      = of_int (round_even ((2000 + (1000 - 1 / 2 ^ 42)) / pow2 (11 - 52))) * pow2 (11 - 52)"
    by (rule fl_binade) (simp_all add: pow2_def)
  also have "\<dots> = 3000"
    by (simp add: pow2_def round_even_def Let_def floor_rat_numeral)
  finally show ?thesis .
qed

lemma max_jitter_5000: "fl (4000 + (1000 - 1 / 2 ^ 42)) = 5000"
proof -
  have "fl (4000 + (1000 - 1 / 2 ^ 42))
      = of_int (round_even ((4000 + (1000 - 1 / 2 ^ 42)) / pow2 (12 - 52))) * pow2 (12 - 52)"
    by (rule fl_binade) (simp_all add: pow2_def)
  also have "\<dots> = 5000"
    by (simp add: pow2_def round_even_def Let_def floor_rat_numeral)
  finally show ?thesis .
qed

lemma backoffDelay_max_jitter:
  "backoffDelay (Suc 0) (1 - 1 / 2 ^ 52) = 3000"
  "backoffDelay (Suc (Suc 0)) (1 - 1 / 2 ^ 52) = 5000"
proof -
  have a: "fl (2 ^ Suc 0 * 1000) = 2000" "fl (2 ^ Suc (Suc 0) * 1000) = 4000"
    by (simp_all add: fl_numeral)
  show "backoffDelay (Suc 0) (1 - 1 / 2 ^ 52) = 3000"
    unfolding backoffDelay_def a max_jitter_1000 by (rule max_jitter_3000)
  show "backoffDelay (Suc (Suc 0)) (1 - 1 / 2 ^ 52) = 5000"
    unfolding backoffDelay_def a max_jitter_1000 by (rule max_jitter_5000)
qed

text \<open>The rounded sum of line 996 stays between the two integers that bound the exact one.\<close>

lemma backoffDelay_bounds:
  assumes r: "0 \<le> r" "r < 1" and A: "2 ^ attempt * 1000 = (of_int A :: rat)" "0 \<le> A" "A + 1000 < 2 ^ 53"
  shows "of_int A \<le> backoffDelay attempt r \<and> backoffDelay attempt r \<le> of_int A + 1000"
proof -
  have big: "(of_int (A + 1000) :: rat) < of_int (2 ^ 53)"
    using A(3) by (simp only: of_int_less_iff)
  have base: "fl (of_int A) = (of_int A :: rat)"
    using A(2,3) by (intro fl_of_int) simp_all
  have "of_int 0 \<le> fl (r * 1000) \<and> fl (r * 1000) \<le> of_int 1000"
    using r by (intro fl_between_ints) simp_all
  then have j: "0 \<le> fl (r * 1000)" "fl (r * 1000) \<le> 1000" by simp_all
  have "of_int A \<le> fl (of_int A + fl (r * 1000))
      \<and> fl (of_int A + fl (r * 1000)) \<le> of_int (A + 1000)"
    using j A(2) big by (intro fl_between_ints) simp_all
  then show ?thesis unfolding backoffDelay_def A(1) base by simp
qed

section \<open>The retry loop\<close>

lemma retryLoop_success:
  assumes "attempt < maxRetries" "tryBody (attempts env n) k app = Inr (r, app')"
  shows "retryLoop env k attempt app n ds =
           \<lparr>outcome = Returned r, final = app', fetches = Suc n, delays = ds\<rparr>"
  using assms by (subst retryLoop.simps) simp

lemma retryLoop_abort:
  assumes "attempt < maxRetries" "tryBody (attempts env n) k app = Inl e"
    "error_name e = ''AbortError''"
  shows "retryLoop env k attempt app n ds =
           \<lparr>outcome = Threw e, final = app, fetches = Suc n, delays = ds\<rparr>"
  using assms by (subst retryLoop.simps) simp

lemma retryLoop_last:
  assumes "Suc attempt = maxRetries" "tryBody (attempts env n) k app = Inl e"
  shows "retryLoop env k attempt app n ds =
           \<lparr>outcome = Threw e, final = app, fetches = Suc n, delays = ds\<rparr>"
  using assms by (subst retryLoop.simps) auto

lemma retryLoop_retry:
  assumes "Suc attempt < maxRetries" "tryBody (attempts env n) k app = Inl e"
    "error_name e \<noteq> ''AbortError''"
  shows "retryLoop env k attempt app n ds =
           retryLoop env k (Suc attempt) app (Suc n)
             (ds @ [backoffDelay (Suc attempt) (random (attempts env n))])"
  using assms by (subst retryLoop.simps) simp

lemma tryBody_Inl: "fetchResults a = Inl e \<Longrightarrow> tryBody a k app = Inl e"
  by (simp add: tryBody_def)

lemma tryBody_Inr:
  "fetchResults a = Inr r \<Longrightarrow>
   tryBody a k app =
     Inr (r, app\<lparr>searchCache :=
                   (if r \<noteq> [] then map_set (searchCache app) k
                       \<lparr>data = r, timestamp = dateNow a,
                        responseTime = fl (requestEnd a - requestStart a)\<rparr>
                    else searchCache app),
                 metrics := (metrics app)\<lparr>avgResponseTime :=
                   fl (fl (avgResponseTime (metrics app) + fl (requestEnd a - requestStart a)) / 2)\<rparr>\<rparr>)"
  by (simp add: tryBody_def Let_def)

text \<open>The loop started in step with the fetch counter skips a run of failed attempts.\<close>

lemma retryLoop_skip:
  assumes "\<forall>i<m. \<exists>e. fetchResults (attempts env i) = Inl e \<and> error_name e \<noteq> ''AbortError''"
    and "m < maxRetries"
  shows "retryLoop env k 0 app 0 [] = retryLoop env k m app m (map (backoff env) [0..<m])"
  using assms
proof (induction m)
  case 0
  show ?case by simp
next
  case (Suc m)
  then obtain e where e: "fetchResults (attempts env m) = Inl e" "error_name e \<noteq> ''AbortError''"
    by blast
  have "retryLoop env k 0 app 0 [] = retryLoop env k m app m (map (backoff env) [0..<m])"
    using Suc by simp
  also have "\<dots> = retryLoop env k (Suc m) app (Suc m)
                     (map (backoff env) [0..<m] @ [backoffDelay (Suc m) (random (attempts env m))])"
    using Suc.prems(2) e by (intro retryLoop_retry [where e = e]) (simp_all add: tryBody_Inl)
  also have "map (backoff env) [0..<m] @ [backoffDelay (Suc m) (random (attempts env m))]
               = map (backoff env) [0..<Suc m]"
    by (simp add: backoff_def)
  finally show ?case .
qed

lemma performSearch_miss:
  assumes "generateCacheKey app (hashed env) = Inr k" "\<not> cacheFresh app k (probeNow env)"
  shows "performSearch app env = retryLoop env k 0 (countMiss app) 0 []"
  using assms by (auto simp: performSearch_def cacheFresh_def split: option.splits)

lemma performSearch_hit:
  assumes "generateCacheKey app (hashed env) = Inr k"
    "map_get (searchCache app) k = Some c" "probeNow env - timestamp c < CACHE_EXPIRY"
  shows "performSearch app env =
           \<lparr>outcome = Returned (data c), final = countHit app, fetches = 0, delays = []\<rparr>"
  using assms by (simp add: performSearch_def)

lemma retryableFailure_fails:
  assumes "retryableFailure (fetched a)"
  shows "\<exists>e. fetchResults a = Inl e \<and> error_name e \<noteq> ''AbortError''"
  using assms
  by (auto simp: retryableFailure_def fetchResults_def
           split: fetch_outcome.splits body_outcome.splits)

lemma all_fail_run:
  assumes key: "generateCacheKey app (hashed env) = Inr k"
    and miss: "\<not> cacheFresh app k (probeNow env)"
    and f: "\<forall>i<2. \<exists>e'. fetchResults (attempts env i) = Inl e' \<and> error_name e' \<noteq> ''AbortError''"
    and e: "fetchResults (attempts env 2) = Inl e"
  shows "performSearch app env =
      \<lparr>outcome = Threw e, final = countMiss app, fetches = 3,
       delays = [backoff env 0, backoff env 1]\<rparr>"
proof -
  have "performSearch app env = retryLoop env k 0 (countMiss app) 0 []"
    using key miss by (rule performSearch_miss)
  also have "\<dots> = retryLoop env k 2 (countMiss app) 2 (map (backoff env) [0..<2])"
    using f by (rule retryLoop_skip) (simp add: maxRetries_def)
  also have "\<dots> = \<lparr>outcome = Threw e, final = countMiss app, fetches = Suc 2,
                     delays = map (backoff env) [0..<2]\<rparr>"
    using e by (intro retryLoop_last) (simp_all add: maxRetries_def tryBody_Inl)
  finally show ?thesis
    by (simp add: upt_rec numeral_2_eq_2)
qed

lemmas demo_defs = demo_match_def demo_app_def demo_file_app_def attempt_of_def resp503_def
  netFailure_def serviceError_def aborted_def malformed_def found_def noFields_def env_of_def
  generateCacheKey_def cacheFresh_def map_get_def map_set_def retryableFailure_def ok_def
  fetchResults_def backoff_def backoffDelay_def fl_numeral countMiss_def countHit_def
  CACHE_EXPIRY_def

text \<open>
  Claim C1 fails in its upper bound on the delay.  The sum of line 996 is a double: when
  \<open>Math.random()\<close> returns its largest value \<open>1 - 2 ^ -52\<close>, the product with 1000 is
  the double \<open>1000 - 2 ^ -42\<close>, and adding 2000 or 4000 rounds to exactly 3000 or 5000,
  which is not less than \<open>2 ^ attempt * 1000 + 1000\<close>.
\<close>

theorem C1_max_jitter_counterexample:
  "retryableFailure (fetched (attempts env_max_jitter 0))
   \<and> retryableFailure (fetched (attempts env_max_jitter 1))
   \<and> retryableFailure (fetched (attempts env_max_jitter 2))
   \<and> 0 \<le> random (attempts env_max_jitter 0) \<and> random (attempts env_max_jitter 0) < 1
   \<and> 0 \<le> random (attempts env_max_jitter 1) \<and> random (attempts env_max_jitter 1) < 1
   \<and> fetches (performSearch demo_app env_max_jitter) = 3
   \<and> delays (performSearch demo_app env_max_jitter)
       = [2 ^ 1 * 1000 + 1000, 2 ^ 2 * 1000 + 1000]"
proof -
  have key: "generateCacheKey demo_app (hashed env_max_jitter) = Inr ''url_http://x.com/img.png''"
    by (simp add: env_max_jitter_def demo_defs)
  have miss: "\<not> cacheFresh demo_app ''url_http://x.com/img.png'' (probeNow env_max_jitter)"
    by (simp add: env_max_jitter_def demo_defs)
  have f: "fetchResults (attempts env_max_jitter i) = Inl (ApiRequestFailed 503 ''Service Unavailable'')"
    for i
    by (simp add: env_max_jitter_def demo_defs)
  have r: "random (attempts env_max_jitter i) = 1 - 1 / 2 ^ 52" for i
    by (simp add: env_max_jitter_def)
  have rf: "retryableFailure (fetched (attempts env_max_jitter i))" for i
    by (simp add: env_max_jitter_def demo_defs)
  have b0: "backoff env_max_jitter 0 = 3000"
    unfolding backoff_def r by (rule backoffDelay_max_jitter)
  have "backoff env_max_jitter (Suc 0) = 5000"
    unfolding backoff_def r by (rule backoffDelay_max_jitter)
  then have b1: "backoff env_max_jitter 1 = 5000" by simp
  have run: "performSearch demo_app env_max_jitter =
      \<lparr>outcome = Threw (ApiRequestFailed 503 ''Service Unavailable''),
       final = countMiss demo_app, fetches = 3,
       delays = [backoff env_max_jitter 0, backoff env_max_jitter 1]\<rparr>"
    using key miss by (rule all_fail_run) (simp_all add: f)
  have rr: "0 \<le> random (attempts env_max_jitter i) \<and> random (attempts env_max_jitter i) < 1" for i
    unfolding r by simp
  show ?thesis
    unfolding run b0 b1 using rf rr by simp
qed

text \<open>
  Claim C1 as amended.  When the key is computed, the cache probe misses and each of the
  three calls of \<open>fetch\<close> fails in one of the retryable ways (status outside 200 to 299, a
  rejected \<open>fetch\<close> other than an abort, a truthy \<open>error\<close> member), \<open>performSearch\<close> calls
  \<open>fetch\<close> exactly three times, sleeps exactly twice, after the first and after the second
  failure, for the double \<open>2 ^ attempt * 1000 + Math.random() * 1000\<close> milliseconds where
  \<open>attempt\<close> is the number of failures so far (at least \<open>2 ^ attempt * 1000\<close> and at most
  1000 more), and then throws the error of the third attempt.  The function is total, so
  the search ends.
\<close>

theorem C1_retry_bound:
  assumes key: "generateCacheKey app (hashed env) = Inr k"
    and miss: "\<not> cacheFresh app k (probeNow env)"
    and fail: "\<forall>i<3. retryableFailure (fetched (attempts env i))"
    and rnd: "\<forall>i<3. 0 \<le> random (attempts env i) \<and> random (attempts env i) < 1"
  shows "fetches (performSearch app env) = 3
       \<and> delays (performSearch app env) = [backoff env 0, backoff env 1]
       \<and> 2 ^ 1 * 1000 \<le> backoff env 0 \<and> backoff env 0 \<le> 2 ^ 1 * 1000 + 1000
       \<and> 2 ^ 2 * 1000 \<le> backoff env 1 \<and> backoff env 1 \<le> 2 ^ 2 * 1000 + 1000
       \<and> (\<exists>e. fetchResults (attempts env 2) = Inl e \<and> outcome (performSearch app env) = Threw e)"
proof -
  have f: "\<forall>i<2. \<exists>e. fetchResults (attempts env i) = Inl e \<and> error_name e \<noteq> ''AbortError''"
    using fail retryableFailure_fails by simp
  obtain e where e: "fetchResults (attempts env 2) = Inl e"
    using fail retryableFailure_fails [of "attempts env 2"] by auto
  have run: "performSearch app env =
      \<lparr>outcome = Threw e, final = countMiss app, fetches = 3,
       delays = [backoff env 0, backoff env 1]\<rparr>"
    using key miss f e by (rule all_fail_run)
  have r0: "0 \<le> random (attempts env 0)" "random (attempts env 0) < 1"
    and r1: "0 \<le> random (attempts env 1)" "random (attempts env 1) < 1"
    using rnd by simp_all
  have "of_int 2000 \<le> backoffDelay (Suc 0) (random (attempts env 0))
      \<and> backoffDelay (Suc 0) (random (attempts env 0)) \<le> of_int 2000 + 1000"
    using r0 by (rule backoffDelay_bounds) simp_all
  then have b0: "2000 \<le> backoff env 0 \<and> backoff env 0 \<le> 3000"
    by (simp add: backoff_def)
  have "of_int 4000 \<le> backoffDelay (Suc (Suc 0)) (random (attempts env 1))
      \<and> backoffDelay (Suc (Suc 0)) (random (attempts env 1)) \<le> of_int 4000 + 1000"
    using r1 by (rule backoffDelay_bounds) simp_all
  then have b1: "4000 \<le> backoff env 1 \<and> backoff env 1 \<le> 5000"
    by (simp add: backoff_def)
  show ?thesis using run e b0 b1 by simp
qed

text \<open>Witness for the amended C1: a 503, then a network failure, then a service error.\<close>

theorem C1_retry_bound_witness:
  "generateCacheKey demo_app (hashed env_all_fail) = Inr ''url_http://x.com/img.png''
   \<and> \<not> cacheFresh demo_app ''url_http://x.com/img.png'' (probeNow env_all_fail)
   \<and> retryableFailure (fetched (attempts env_all_fail 0))
   \<and> retryableFailure (fetched (attempts env_all_fail 1))
   \<and> retryableFailure (fetched (attempts env_all_fail 2))
   \<and> random (attempts env_all_fail 0) = 1 / 4
   \<and> random (attempts env_all_fail 1) = 1 / 2
   \<and> random (attempts env_all_fail 2) = 3 / 4
   \<and> fetches (performSearch demo_app env_all_fail) = 3
   \<and> delays (performSearch demo_app env_all_fail) = [2250, 4500]
   \<and> outcome (performSearch demo_app env_all_fail)
       = Threw (ServiceError (JStr ''Search queue is full''))"
proof -
  have key: "generateCacheKey demo_app (hashed env_all_fail) = Inr ''url_http://x.com/img.png''"
    by (simp add: env_all_fail_def demo_defs)
  have miss: "\<not> cacheFresh demo_app ''url_http://x.com/img.png'' (probeNow env_all_fail)"
    by (simp add: env_all_fail_def demo_defs)
  have fail: "\<forall>i<3. retryableFailure (fetched (attempts env_all_fail i))"
    by (simp add: env_all_fail_def demo_defs)
  have rnd: "\<forall>i<3. 0 \<le> random (attempts env_all_fail i) \<and> random (attempts env_all_fail i) < 1"
    by (simp add: env_all_fail_def demo_defs)
  have e2: "fetchResults (attempts env_all_fail 2) = Inl (ServiceError (JStr ''Search queue is full''))"
    by (simp add: env_all_fail_def demo_defs)
  have b: "backoff env_all_fail 0 = 2250" "backoff env_all_fail 1 = 4500"
    by (simp_all add: env_all_fail_def demo_defs)
  have inst: "retryableFailure (fetched (attempts env_all_fail 0))"
    "retryableFailure (fetched (attempts env_all_fail 1))"
    "retryableFailure (fetched (attempts env_all_fail 2))"
    "random (attempts env_all_fail 0) = 1 / 4"
    "random (attempts env_all_fail 1) = 1 / 2"
    "random (attempts env_all_fail 2) = 3 / 4"
    by (simp_all add: env_all_fail_def demo_defs)
  show ?thesis
    using C1_retry_bound [OF key miss fail rnd] key miss inst e2 b by auto
qed


lemma retryLoop_trace:
  "n \<le> fetches (retryLoop env k attempt app n ds)
   \<and> take (length ds) (delays (retryLoop env k attempt app n ds)) = ds"
proof (induction env k attempt app n ds rule: retryLoop.induct)
  case (1 env k attempt app n ds)
  show ?case
  proof (cases "attempt < maxRetries")
    case False
    then show ?thesis by (subst (1 2) retryLoop.simps) simp
  next
    case lt: True
    show ?thesis
    proof (cases "tryBody (attempts env n) k app")
      case (Inr p)
      then show ?thesis using lt by (cases p) (simp add: retryLoop_success)
    next
      case (Inl e)
      show ?thesis
      proof (cases "error_name e = ''AbortError''")
        case True
        then show ?thesis using lt Inl by (simp add: retryLoop_abort)
      next
        case na: False
        show ?thesis
        proof (cases "Suc attempt = maxRetries")
          case True
          then show ?thesis using Inl by (simp add: retryLoop_last)
        next
          case False
          then have "Suc attempt < maxRetries" using lt by simp
          then have eq: "retryLoop env k attempt app n ds =
             retryLoop env k (Suc attempt) app (Suc n)
             (ds @ [backoffDelay (Suc attempt) (random (attempts env n))])"
            using Inl na by (rule retryLoop_retry)
          define R where "R = retryLoop env k (Suc attempt) app (Suc n)
             (ds @ [backoffDelay (Suc attempt) (random (attempts env n))])"
          have ih: "Suc n \<le> fetches R \<and>
             take (length (ds @ [backoffDelay (Suc attempt) (random (attempts env n))])) (delays R)
               = ds @ [backoffDelay (Suc attempt) (random (attempts env n))]"
            unfolding R_def using "1.IH" [OF lt Inl na False] .
          then have "take (length ds) (take (Suc (length ds)) (delays R)) = ds"
            by simp
          then have "take (length ds) (delays R) = ds"
            by (simp add: min_def)
          then show ?thesis using ih unfolding eq R_def [symmetric] by simp
        qed
      qed
    qed
  qed
qed

lemma retryLoop_fetches_Suc:
  assumes "attempt < maxRetries"
  shows "Suc n \<le> fetches (retryLoop env k attempt app n ds)"
proof (cases "tryBody (attempts env n) k app")
  case (Inr p)
  then show ?thesis using assms by (cases p) (simp add: retryLoop_success)
next
  case (Inl e)
  show ?thesis
  proof (cases "error_name e = ''AbortError'' \<or> Suc attempt = maxRetries")
    case True
    then show ?thesis using assms Inl by (auto simp: retryLoop_abort retryLoop_last)
  next
    case False
    then have "retryLoop env k attempt app n ds =
             retryLoop env k (Suc attempt) app (Suc n)
             (ds @ [backoffDelay (Suc attempt) (random (attempts env n))])"
      using assms Inl by (intro retryLoop_retry) auto
    then show ?thesis using retryLoop_trace [of "Suc n" env k "Suc attempt" app] 
      by (simp add: Suc_leD)
  qed
qed

text \<open>
  Claim C3.  When attempt \<open>n\<close> (reached after \<open>n\<close> failed attempts, \<open>n < 3\<close>) fails with
  an error named \<open>AbortError\<close>, \<open>performSearch\<close> throws that very error: the call of
  \<open>fetch\<close> that was aborted is the last one, the only delays taken are those before it, and
  the state is the one the cache miss left.
\<close>

theorem C3_cancel:
  assumes key: "generateCacheKey app (hashed env) = Inr k"
    and miss: "\<not> cacheFresh app k (probeNow env)"
    and n: "n < 3"
    and prior: "\<forall>i<n. \<exists>e'. fetchResults (attempts env i) = Inl e' \<and> error_name e' \<noteq> ''AbortError''"
    and abort: "fetchResults (attempts env n) = Inl e" "error_name e = ''AbortError''"
  shows "outcome (performSearch app env) = Threw e
       \<and> fetches (performSearch app env) = Suc n
       \<and> delays (performSearch app env) = map (backoff env) [0..<n]
       \<and> final (performSearch app env) = countMiss app"
proof -
  have "performSearch app env = retryLoop env k 0 (countMiss app) 0 []"
    using key miss by (rule performSearch_miss)
  also have "\<dots> = retryLoop env k n (countMiss app) n (map (backoff env) [0..<n])"
    using prior n by (intro retryLoop_skip) (simp_all add: maxRetries_def)
  also have "\<dots> = \<lparr>outcome = Threw e, final = countMiss app, fetches = Suc n,
                     delays = map (backoff env) [0..<n]\<rparr>"
    using n abort by (intro retryLoop_abort) (simp_all add: maxRetries_def tryBody_Inl)
  finally show ?thesis by simp
qed

text \<open>Witness for C3: the second attempt is aborted, a third would have succeeded.\<close>

theorem C3_cancel_witness:
  "generateCacheKey demo_app (hashed env_abort_second) = Inr ''url_http://x.com/img.png''
   \<and> \<not> cacheFresh demo_app ''url_http://x.com/img.png'' (probeNow env_abort_second)
   \<and> (1::nat) < 3
   \<and> fetchResults (attempts env_abort_second 0) = Inl (Rejection ''TypeError'' ''Failed to fetch'')
   \<and> fetchResults (attempts env_abort_second 1) = Inl (Rejection ''AbortError'' ''The user aborted a request.'')
   \<and> outcome (performSearch demo_app env_abort_second)
       = Threw (Rejection ''AbortError'' ''The user aborted a request.'')
   \<and> fetches (performSearch demo_app env_abort_second) = 2
   \<and> delays (performSearch demo_app env_abort_second) = [2250]"
proof -
  have key: "generateCacheKey demo_app (hashed env_abort_second) = Inr ''url_http://x.com/img.png''"
    by (simp add: env_abort_second_def demo_defs)
  have miss: "\<not> cacheFresh demo_app ''url_http://x.com/img.png'' (probeNow env_abort_second)"
    by (simp add: env_abort_second_def demo_defs)
  have n: "(1::nat) < 3" by simp
  have prior: "\<forall>i<1. \<exists>e'. fetchResults (attempts env_abort_second i) = Inl e' \<and> error_name e' \<noteq> ''AbortError''"
    by (simp add: env_abort_second_def demo_defs)
  have ab: "fetchResults (attempts env_abort_second 1) = Inl (Rejection ''AbortError'' ''The user aborted a request.'')"
    by (simp add: env_abort_second_def demo_defs)
  have nm: "error_name (Rejection ''AbortError'' ''The user aborted a request.'') = ''AbortError''"
    by simp
  have b: "backoff env_abort_second 0 = 2250"
    by (simp add: env_abort_second_def demo_defs)
  have first: "fetchResults (attempts env_abort_second 0) = Inl (Rejection ''TypeError'' ''Failed to fetch'')"
    by (simp add: env_abort_second_def demo_defs)
  show ?thesis
    using C3_cancel [OF key miss n prior ab nm] key miss first ab b by simp
qed

text \<open>
  Claim C4 fails on the code: the rejection of \<open>response.json()\<close> is thrown inside the
  \<open>try\<close> block and is caught like every other error.  Here the first response is 200 with
  a body that does not parse, and the search sleeps 2250 ms, fetches again and returns the
  match of the second response.
\<close>

theorem C4_malformed_counterexample:
  "fetched (attempts env_malformed_first 0)
     = FetchResolved \<lparr>status = 200, statusText = ''OK'',
          json = JsonRejected (Rejection ''SyntaxError'' ''Unexpected token'')\<rparr>
   \<and> outcome (performSearch demo_app env_malformed_first) = Returned [demo_match]
   \<and> fetches (performSearch demo_app env_malformed_first) = 2
   \<and> delays (performSearch demo_app env_malformed_first) = [2250]"
proof -
  have key: "generateCacheKey demo_app (hashed env_malformed_first) = Inr ''url_http://x.com/img.png''"
    by (simp add: env_malformed_first_def demo_defs)
  have miss: "\<not> cacheFresh demo_app ''url_http://x.com/img.png'' (probeNow env_malformed_first)"
    by (simp add: env_malformed_first_def demo_defs)
  have f0: "fetchResults (attempts env_malformed_first 0) = Inl (Rejection ''SyntaxError'' ''Unexpected token'')"
    by (simp add: env_malformed_first_def demo_defs)
  have f1: "fetchResults (attempts env_malformed_first (Suc 0)) = Inr [demo_match]"
    by (simp add: env_malformed_first_def demo_defs)
  have b: "random (attempts env_malformed_first 0) = 1 / 4"
    by (simp add: env_malformed_first_def demo_defs)
  have "performSearch demo_app env_malformed_first
          = retryLoop env_malformed_first ''url_http://x.com/img.png'' 0 (countMiss demo_app) 0 []"
    using key miss by (rule performSearch_miss)
  also have "\<dots> = retryLoop env_malformed_first ''url_http://x.com/img.png'' (Suc 0)
                      (countMiss demo_app) (Suc 0) [2250]"
    using retryLoop_retry [of 0 env_malformed_first 0 "''url_http://x.com/img.png''"
            "countMiss demo_app" "Rejection ''SyntaxError'' ''Unexpected token''" "[]"]
      f0 unfolding b by (simp add: maxRetries_def tryBody_Inl backoffDelay_def fl_numeral)
  finally have run: "performSearch demo_app env_malformed_first
          = retryLoop env_malformed_first ''url_http://x.com/img.png'' (Suc 0)
                      (countMiss demo_app) (Suc 0) [2250]" .
  have "outcome (retryLoop env_malformed_first ''url_http://x.com/img.png'' (Suc 0)
                      (countMiss demo_app) (Suc 0) [2250]) = Returned [demo_match]
      \<and> fetches (retryLoop env_malformed_first ''url_http://x.com/img.png'' (Suc 0)
                      (countMiss demo_app) (Suc 0) [2250]) = 2
      \<and> delays (retryLoop env_malformed_first ''url_http://x.com/img.png'' (Suc 0)
                      (countMiss demo_app) (Suc 0) [2250]) = [2250]"
    by (subst (1 2 3) retryLoop.simps) (simp add: maxRetries_def tryBody_Inr [OF f1])
  then show ?thesis unfolding run by (simp add: env_malformed_first_def demo_defs)
qed


text \<open>
  Claim C4 as amended.  A response with a status 200 to 299 whose body does not parse
  (\<open>response.json()\<close> rejects with an error other than an abort) is a failed attempt like
  any other: on the third attempt the parse error is thrown to the caller; on the first or
  second the backoff delay is taken and another call of \<open>fetch\<close> follows.
\<close>

theorem C4_malformed_retried:
  assumes key: "generateCacheKey app (hashed env) = Inr k"
    and miss: "\<not> cacheFresh app k (probeNow env)"
    and n: "n < 3"
    and prior: "\<forall>i<n. \<exists>e'. fetchResults (attempts env i) = Inl e' \<and> error_name e' \<noteq> ''AbortError''"
    and resp: "fetched (attempts env n) = FetchResolved r" "ok r"
    and body: "json r = JsonRejected e" "error_name e \<noteq> ''AbortError''"
  shows "(n = 2 \<longrightarrow> outcome (performSearch app env) = Threw e
                  \<and> fetches (performSearch app env) = 3)
       \<and> (n < 2 \<longrightarrow> Suc (Suc n) \<le> fetches (performSearch app env)
                  \<and> take (Suc n) (delays (performSearch app env)) = map (backoff env) [0..<Suc n])"
proof -
  have fn: "fetchResults (attempts env n) = Inl e"
    using resp body by (simp add: fetchResults_def)
  have start: "performSearch app env = retryLoop env k 0 (countMiss app) 0 []"
    using key miss by (rule performSearch_miss)
  have last: "outcome (performSearch app env) = Threw e \<and> fetches (performSearch app env) = 3"
    if "n = 2"
  proof -
    have "retryLoop env k 0 (countMiss app) 0 []
            = retryLoop env k 2 (countMiss app) 2 (map (backoff env) [0..<2])"
      using prior that by (intro retryLoop_skip) (simp_all add: maxRetries_def)
    also have "\<dots> = \<lparr>outcome = Threw e, final = countMiss app, fetches = Suc 2,
                       delays = map (backoff env) [0..<2]\<rparr>"
      using fn that by (intro retryLoop_last) (simp_all add: maxRetries_def tryBody_Inl)
    finally show ?thesis using start by simp
  qed
  have again: "Suc (Suc n) \<le> fetches (performSearch app env)
       \<and> take (Suc n) (delays (performSearch app env)) = map (backoff env) [0..<Suc n]"
    if "n < 2"
  proof -
    have all: "\<forall>i<Suc n. \<exists>e'. fetchResults (attempts env i) = Inl e' \<and> error_name e' \<noteq> ''AbortError''"
      using prior fn body(2) by (auto simp: less_Suc_eq)
    have eq: "retryLoop env k 0 (countMiss app) 0 []
            = retryLoop env k (Suc n) (countMiss app) (Suc n) (map (backoff env) [0..<Suc n])"
      using all that by (intro retryLoop_skip) (simp_all add: maxRetries_def)
    have "Suc n < maxRetries" using that by (simp add: maxRetries_def)
    then have "Suc (Suc n) \<le> fetches (retryLoop env k (Suc n) (countMiss app) (Suc n)
                 (map (backoff env) [0..<Suc n]))"
      by (rule retryLoop_fetches_Suc)
    moreover have "take (length (map (backoff env) [0..<Suc n]))
              (delays (retryLoop env k (Suc n) (countMiss app) (Suc n) (map (backoff env) [0..<Suc n])))
            = map (backoff env) [0..<Suc n]"
      using retryLoop_trace by blast
    ultimately show ?thesis unfolding start eq by simp
  qed
  show ?thesis using last again by blast
qed

text \<open>Witness for the amended C4: an unparseable body at the first attempt.\<close>

theorem C4_malformed_retried_witness:
  "generateCacheKey demo_app (hashed env_malformed_first) = Inr ''url_http://x.com/img.png''
   \<and> \<not> cacheFresh demo_app ''url_http://x.com/img.png'' (probeNow env_malformed_first)
   \<and> (0::nat) < 3
   \<and> fetched (attempts env_malformed_first 0)
        = FetchResolved \<lparr>status = 200, statusText = ''OK'',
             json = JsonRejected (Rejection ''SyntaxError'' ''Unexpected token'')\<rparr>
   \<and> ok \<lparr>status = 200, statusText = ''OK'',
           json = JsonRejected (Rejection ''SyntaxError'' ''Unexpected token'')\<rparr>
   \<and> error_name (Rejection ''SyntaxError'' ''Unexpected token'') \<noteq> ''AbortError''
   \<and> 2 \<le> fetches (performSearch demo_app env_malformed_first)
   \<and> take 1 (delays (performSearch demo_app env_malformed_first)) = [2250]"
proof -
  have key: "generateCacheKey demo_app (hashed env_malformed_first) = Inr ''url_http://x.com/img.png''"
    by (simp add: env_malformed_first_def demo_defs)
  have miss: "\<not> cacheFresh demo_app ''url_http://x.com/img.png'' (probeNow env_malformed_first)"
    by (simp add: env_malformed_first_def demo_defs)
  have n: "(0::nat) < 3" by simp
  have prior: "\<forall>i<0. \<exists>e'. fetchResults (attempts env_malformed_first i) = Inl e' \<and> error_name e' \<noteq> ''AbortError''"
    by simp
  have resp: "fetched (attempts env_malformed_first 0)
        = FetchResolved \<lparr>status = 200, statusText = ''OK'',
             json = JsonRejected (Rejection ''SyntaxError'' ''Unexpected token'')\<rparr>"
    by (simp add: env_malformed_first_def demo_defs)
  have isok: "ok \<lparr>status = 200, statusText = ''OK'',
           json = JsonRejected (Rejection ''SyntaxError'' ''Unexpected token'')\<rparr>"
    by (simp add: ok_def)
  have body: "json \<lparr>status = 200, statusText = ''OK'',
           json = JsonRejected (Rejection ''SyntaxError'' ''Unexpected token'')\<rparr>
        = JsonRejected (Rejection ''SyntaxError'' ''Unexpected token'')"
    by simp
  have nm: "error_name (Rejection ''SyntaxError'' ''Unexpected token'') \<noteq> ''AbortError''"
    by simp
  have b: "backoff env_malformed_first 0 = 2250"
    by (simp add: env_malformed_first_def demo_defs)
  show ?thesis
    using C4_malformed_retried [OF key miss n prior resp isok body nm] key miss resp isok nm b
    by simp
qed

text \<open>
  Claim C7 fails on the code: \<open>generateCacheKey\<close> is awaited before the \<open>try\<close> block, so
  its rejection leaves \<open>performSearch\<close> at once.  Here hashing fails while the service would
  have answered with a match: the search throws the hashing error and never calls
  \<open>fetch\<close>.
\<close>

theorem C7_hash_failure_counterexample:
  "currentFile demo_file_app = Some \<lparr>file_type = ''image/png'', file_size = 2048\<rparr>
   \<and> hashed env_hash_fail = Inl (Rejection ''TypeError'' ''crypto.subtle is undefined'')
   \<and> fetchResults (attempts env_hash_fail 0) = Inr [demo_match]
   \<and> outcome (performSearch demo_file_app env_hash_fail)
        = Threw (Rejection ''TypeError'' ''crypto.subtle is undefined'')
   \<and> fetches (performSearch demo_file_app env_hash_fail) = 0"
  by (simp add: performSearch_def env_hash_fail_def demo_defs)

text \<open>
  Claim C7 as amended.  When a file is selected and hashing it fails, \<open>performSearch\<close>
  throws the hashing error: no cache probe, no call of \<open>fetch\<close>, no delay, and the
  state unchanged.
\<close>

theorem C7_hash_failure_fatal:
  assumes "currentFile app = Some f" and "hashed env = Inl e"
  shows "performSearch app env = \<lparr>outcome = Threw e, final = app, fetches = 0, delays = []\<rparr>"
  using assms by (simp add: performSearch_def generateCacheKey_def)

text \<open>Witness for the amended C7.\<close>

theorem C7_hash_failure_fatal_witness:
  "currentFile demo_file_app = Some \<lparr>file_type = ''image/png'', file_size = 2048\<rparr>
   \<and> hashed env_hash_fail = Inl (Rejection ''TypeError'' ''crypto.subtle is undefined'')
   \<and> performSearch demo_file_app env_hash_fail
        = \<lparr>outcome = Threw (Rejection ''TypeError'' ''crypto.subtle is undefined''),
           final = demo_file_app, fetches = 0, delays = []\<rparr>"
proof -
  have f: "currentFile demo_file_app = Some \<lparr>file_type = ''image/png'', file_size = 2048\<rparr>"
    by (simp add: demo_defs)
  have h: "hashed env_hash_fail = Inl (Rejection ''TypeError'' ''crypto.subtle is undefined'')"
    by (simp add: env_hash_fail_def demo_defs)
  show ?thesis using C7_hash_failure_fatal [OF f h] f h by simp
qed

text \<open>
  Claim C10 fails for one body without an \<open>error\<close> and a \<open>result\<close> member: the JSON
  value \<open>null\<close>.  Reading \<open>data.error\<close> throws a TypeError, which is retried; when all
  three responses are \<open>null\<close> the search fails.
\<close>

theorem C10_null_body_counterexample:
  "fetched (attempts env_null 0)
      = FetchResolved \<lparr>status = 200, statusText = ''OK'', json = JsonNull\<rparr>
   \<and> fetched (attempts env_null 1)
      = FetchResolved \<lparr>status = 200, statusText = ''OK'', json = JsonNull\<rparr>
   \<and> fetched (attempts env_null 2)
      = FetchResolved \<lparr>status = 200, statusText = ''OK'', json = JsonNull\<rparr>
   \<and> outcome (performSearch demo_app env_null) = Threw NullBodyTypeError
   \<and> fetches (performSearch demo_app env_null) = 3"
proof -
  have key: "generateCacheKey demo_app (hashed env_null) = Inr ''url_http://x.com/img.png''"
    by (simp add: env_null_def demo_defs)
  have miss: "\<not> cacheFresh demo_app ''url_http://x.com/img.png'' (probeNow env_null)"
    by (simp add: env_null_def demo_defs)
  have f: "fetchResults (attempts env_null i) = Inl NullBodyTypeError" for i
    by (simp add: env_null_def nullBody_def demo_defs)
  have "performSearch demo_app env_null
          = retryLoop env_null ''url_http://x.com/img.png'' 0 (countMiss demo_app) 0 []"
    using key miss by (rule performSearch_miss)
  also have "\<dots> = retryLoop env_null ''url_http://x.com/img.png'' 2 (countMiss demo_app) 2
                      (map (backoff env_null) [0..<2])"
    by (rule retryLoop_skip) (simp_all add: f maxRetries_def)
  also have "\<dots> = \<lparr>outcome = Threw NullBodyTypeError, final = countMiss demo_app,
                     fetches = Suc 2, delays = map (backoff env_null) [0..<2]\<rparr>"
    by (rule retryLoop_last) (simp_all add: maxRetries_def tryBody_Inl f)
  finally show ?thesis by (simp add: env_null_def nullBody_def demo_defs)
qed

text \<open>
  Claim C10 as amended.  When attempt \<open>n\<close> (reached after \<open>n\<close> failed attempts,
  \<open>n < 3\<close>) gets a response with a status 200 to 299 whose body is a JSON value other
  than \<open>null\<close> with neither an \<open>error\<close> nor a \<open>result\<close> member, \<open>performSearch\<close>
  returns the empty list, makes no further call of \<open>fetch\<close>, and leaves the cache as it
  was.
\<close>

theorem C10_no_fields:
  assumes key: "generateCacheKey app (hashed env) = Inr k"
    and miss: "\<not> cacheFresh app k (probeNow env)"
    and n: "n < 3"
    and prior: "\<forall>i<n. \<exists>e'. fetchResults (attempts env i) = Inl e' \<and> error_name e' \<noteq> ''AbortError''"
    and resp: "fetched (attempts env n) = FetchResolved r" "ok r"
    and body: "json r = JsonValue JUndefined None"
  shows "outcome (performSearch app env) = Returned []
       \<and> fetches (performSearch app env) = Suc n
       \<and> searchCache (final (performSearch app env)) = searchCache app"
proof -
  have fn: "fetchResults (attempts env n) = Inr []"
    using resp body by (simp add: fetchResults_def)
  have "performSearch app env = retryLoop env k 0 (countMiss app) 0 []"
    using key miss by (rule performSearch_miss)
  also have "\<dots> = retryLoop env k n (countMiss app) n (map (backoff env) [0..<n])"
    using prior n by (intro retryLoop_skip) (simp_all add: maxRetries_def)
  finally have run: "performSearch app env
      = retryLoop env k n (countMiss app) n (map (backoff env) [0..<n])" .
  have lt: "n < maxRetries" using n by (simp add: maxRetries_def)
  show ?thesis
    unfolding run retryLoop_success [OF lt tryBody_Inr [OF fn]]
    by (simp add: countMiss_def)
qed

text \<open>Witness for the amended C10: the first response is the empty object.\<close>

theorem C10_no_fields_witness:
  "generateCacheKey demo_app (hashed env_no_fields) = Inr ''url_http://x.com/img.png''
   \<and> \<not> cacheFresh demo_app ''url_http://x.com/img.png'' (probeNow env_no_fields)
   \<and> (0::nat) < 3
   \<and> fetched (attempts env_no_fields 0)
        = FetchResolved \<lparr>status = 200, statusText = ''OK'', json = JsonValue JUndefined None\<rparr>
   \<and> ok \<lparr>status = 200, statusText = ''OK'', json = JsonValue JUndefined None\<rparr>
   \<and> outcome (performSearch demo_app env_no_fields) = Returned []
   \<and> fetches (performSearch demo_app env_no_fields) = 1
   \<and> searchCache (final (performSearch demo_app env_no_fields)) = []"
proof -
  have key: "generateCacheKey demo_app (hashed env_no_fields) = Inr ''url_http://x.com/img.png''"
    by (simp add: env_no_fields_def demo_defs)
  have miss: "\<not> cacheFresh demo_app ''url_http://x.com/img.png'' (probeNow env_no_fields)"
    by (simp add: env_no_fields_def demo_defs)
  have n: "(0::nat) < 3" by simp
  have prior: "\<forall>i<0. \<exists>e'. fetchResults (attempts env_no_fields i) = Inl e' \<and> error_name e' \<noteq> ''AbortError''"
    by simp
  have resp: "fetched (attempts env_no_fields 0)
        = FetchResolved \<lparr>status = 200, statusText = ''OK'', json = JsonValue JUndefined None\<rparr>"
    by (simp add: env_no_fields_def demo_defs)
  have isok: "ok \<lparr>status = 200, statusText = ''OK'', json = JsonValue JUndefined None\<rparr>"
    by (simp add: ok_def)
  have body: "json \<lparr>status = 200, statusText = ''OK'', json = JsonValue JUndefined None\<rparr>
        = JsonValue JUndefined None"
    by simp
  have c: "searchCache demo_app = []" by (simp add: demo_defs)
  show ?thesis
    using C10_no_fields [OF key miss n prior resp isok body] key miss resp isok c
    by simp
qed

lemma map_get_map_set: "map_get (map_set m k v) k = Some v"
  by (simp add: map_get_def map_set_def update_conv')

text \<open>
  Claim C2.  Let a successful attempt at time \<open>dateNow a\<close> return \<open>r\<close> for the key \<open>k\<close>
  (this is where the cache is written).  If \<open>r\<close> is not empty, a later search for \<open>k\<close>
  whose probe runs less than \<open>CACHE_EXPIRY\<close> after that time returns exactly \<open>r\<close> without
  calling \<open>fetch\<close>; a probe at \<open>CACHE_EXPIRY\<close> or later finds nothing fresh and goes on to
  the network exactly as on a miss.  If \<open>r\<close> is empty the cache is not changed at all.
\<close>

theorem C2_cache_roundtrip:
  assumes put: "tryBody a k app = Inr (r, app')"
    and key: "generateCacheKey app' (hashed env) = Inr k"
  shows "(r \<noteq> [] \<and> probeNow env - dateNow a < CACHE_EXPIRY \<longrightarrow>
            performSearch app' env
              = \<lparr>outcome = Returned r, final = countHit app', fetches = 0, delays = []\<rparr>)
       \<and> (r \<noteq> [] \<and> probeNow env - dateNow a \<ge> CACHE_EXPIRY \<longrightarrow>
            \<not> cacheFresh app' k (probeNow env)
            \<and> performSearch app' env = retryLoop env k 0 (countMiss app') 0 []
            \<and> 1 \<le> fetches (performSearch app' env))
       \<and> (r = [] \<longrightarrow> searchCache app' = searchCache app)"
proof -
  from put have fr: "fetchResults a = Inr r"
    by (auto simp: tryBody_def Let_def split: sum.splits)
  have app': "app' = app\<lparr>searchCache :=
                   (if r \<noteq> [] then map_set (searchCache app) k
                       \<lparr>data = r, timestamp = dateNow a,
                        responseTime = fl (requestEnd a - requestStart a)\<rparr>
                    else searchCache app),
                 metrics := (metrics app)\<lparr>avgResponseTime :=
                   fl (fl (avgResponseTime (metrics app) + fl (requestEnd a - requestStart a)) / 2)\<rparr>\<rparr>"
    using put unfolding tryBody_Inr [OF fr] by simp
  have got: "map_get (searchCache app') k
               = Some \<lparr>data = r, timestamp = dateNow a,
                       responseTime = fl (requestEnd a - requestStart a)\<rparr>" if "r \<noteq> []"
    using that by (simp add: app' map_get_map_set)
  have hit: "performSearch app' env
              = \<lparr>outcome = Returned r, final = countHit app', fetches = 0, delays = []\<rparr>"
    if "r \<noteq> []" "probeNow env - dateNow a < CACHE_EXPIRY"
    using performSearch_hit [OF key got [OF that(1)]] that(2) by simp
  have stale: "\<not> cacheFresh app' k (probeNow env)"
    if "r \<noteq> []" "probeNow env - dateNow a \<ge> CACHE_EXPIRY"
    using got [OF that(1)] that(2) by (simp add: cacheFresh_def)
  have miss: "performSearch app' env = retryLoop env k 0 (countMiss app') 0 []
            \<and> 1 \<le> fetches (performSearch app' env)"
    if "r \<noteq> []" "probeNow env - dateNow a \<ge> CACHE_EXPIRY"
  proof -
    have eq: "performSearch app' env = retryLoop env k 0 (countMiss app') 0 []"
      using key stale [OF that] by (rule performSearch_miss)
    have "Suc 0 \<le> fetches (retryLoop env k 0 (countMiss app') 0 [])"
      by (rule retryLoop_fetches_Suc) (simp add: maxRetries_def)
    then show ?thesis using eq by simp
  qed
  have empty: "searchCache app' = searchCache app" if "r = []"
    using that by (simp add: app')
  show ?thesis using hit stale miss empty by blast
qed


text \<open>Witness for C2: a probe before the write's expiry and one exactly at it.\<close>

theorem C2_cache_roundtrip_witness:
  "tryBody (attempt_of found (1 / 4)) ''url_http://x.com/img.png'' demo_app
     = Inr ([demo_match], demo_app_cached)
   \<and> generateCacheKey demo_app_cached (hashed env_found) = Inr ''url_http://x.com/img.png''
   \<and> generateCacheKey demo_app_cached (hashed env_expired) = Inr ''url_http://x.com/img.png''
   \<and> probeNow env_found - dateNow (attempt_of found (1 / 4)) < CACHE_EXPIRY
   \<and> probeNow env_expired - dateNow (attempt_of found (1 / 4)) \<ge> CACHE_EXPIRY
   \<and> outcome (performSearch demo_app_cached env_found) = Returned [demo_match]
   \<and> fetches (performSearch demo_app_cached env_found) = 0
   \<and> 1 \<le> fetches (performSearch demo_app_cached env_expired)"
proof -
  have put: "tryBody (attempt_of found (1 / 4)) ''url_http://x.com/img.png'' demo_app
     = Inr ([demo_match], demo_app_cached)"
    by (simp add: tryBody_def demo_app_cached_def demo_defs)
  have key1: "generateCacheKey demo_app_cached (hashed env_found) = Inr ''url_http://x.com/img.png''"
    by (simp add: env_found_def demo_app_cached_def demo_defs)
  have key2: "generateCacheKey demo_app_cached (hashed env_expired) = Inr ''url_http://x.com/img.png''"
    by (simp add: env_expired_def demo_app_cached_def demo_defs)
  have t1: "probeNow env_found - dateNow (attempt_of found (1 / 4)) < CACHE_EXPIRY"
    by (simp add: env_found_def demo_defs)
  have t2: "probeNow env_expired - dateNow (attempt_of found (1 / 4)) \<ge> CACHE_EXPIRY"
    by (simp add: env_expired_def demo_defs)
  have ne: "[demo_match] \<noteq> []" by simp
  have hit: "performSearch demo_app_cached env_found
      = \<lparr>outcome = Returned [demo_match], final = countHit demo_app_cached,
         fetches = 0, delays = []\<rparr>"
    using C2_cache_roundtrip [OF put key1] t1 ne by blast
  have stale: "1 \<le> fetches (performSearch demo_app_cached env_expired)"
    using C2_cache_roundtrip [OF put key2] t2 ne by blast
  show ?thesis
    using hit stale put key1 key2 t1 t2 by simp
qed

section \<open>Cache cleanup, validation and ranking\<close>

lemma js_insert_insort:
  fixes f :: "'a \<Rightarrow> 'b::linordered_idom"
  shows "js_insert (\<lambda>a b. f a - f b) x ys = insort_key f x ys"
  by (induction ys) simp_all

lemma js_sort_sort_key:
  fixes f :: "'a \<Rightarrow> 'b::linordered_idom"
  shows "js_sort (\<lambda>a b. f a - f b) xs = sort_key f xs"
  by (induction xs) (simp_all add: js_insert_insort)

lemma js_sort_descending:
  fixes f :: "'a \<Rightarrow> 'b::linordered_idom"
  shows "js_sort (\<lambda>a b. f b - f a) xs = sort_key (\<lambda>x. - f x) xs"
  using js_sort_sort_key [of "\<lambda>x. - f x" xs] by simp

lemma fold_delete_if:
  "fold (\<lambda>(key, value) m. if P value then map_delete m key else m) xs m
     = filter (\<lambda>(k, v). k \<notin> fst ` {e \<in> set xs. P (snd e)}) m"
proof (induction xs arbitrary: m)
  case Nil
  show ?case by simp
next
  case (Cons x xs)
  obtain k v where x: "x = (k, v)" by (cases x)
  show ?case
    unfolding x
  proof (cases "P v")
    case True
    have "fst ` {e \<in> set ((k, v) # xs). P (snd e)} = insert k (fst ` {e \<in> set xs. P (snd e)})"
      using True by force
    then show "fold (\<lambda>(key, value) m. if P value then map_delete m key else m) ((k, v) # xs) m
        = filter (\<lambda>(k', v'). k' \<notin> fst ` {e \<in> set ((k, v) # xs). P (snd e)}) m"
      using True by (auto simp: Cons.IH map_delete_def AList.delete_eq intro!: filter_cong)
  next
    case False
    have "fst ` {e \<in> set ((k, v) # xs). P (snd e)} = fst ` {e \<in> set xs. P (snd e)}"
      using False by force
    then show "fold (\<lambda>(key, value) m. if P value then map_delete m key else m) ((k, v) # xs) m
        = filter (\<lambda>(k', v'). k' \<notin> fst ` {e \<in> set ((k, v) # xs). P (snd e)}) m"
      using False by (simp add: Cons.IH)
  qed
qed

lemma fold_delete_all:
  "fold (\<lambda>(key, value) m. map_delete m key) xs m
     = filter (\<lambda>(k, v). k \<notin> fst ` set xs) m"
proof -
  have "(\<lambda>(key, value) m. map_delete m key)
        = (\<lambda>(key, value::'b) m. if (\<lambda>_. True) value then map_delete m key else (m::'a js_map))"
    by simp
  then show ?thesis using fold_delete_if [of "\<lambda>_. True" xs m] by simp
qed

lemma filter_keys_distinct:
  assumes "distinct (map fst c)" "set d \<subseteq> set c"
  shows "filter (\<lambda>(k, v). k \<notin> fst ` set d) c = filter (\<lambda>e. e \<notin> set d) c"
proof (rule filter_cong [OF refl])
  fix e assume e: "e \<in> set c"
  obtain k v where kv: "e = (k, v)" by (cases e)
  have "k \<in> fst ` set d \<longleftrightarrow> (k, v) \<in> set d"
  proof
    assume "k \<in> fst ` set d"
    then obtain v' where d: "(k, v') \<in> set d" by auto
    then have "(k, v') \<in> set c" using assms(2) by auto
    then have "v' = v" using e kv assms(1) by (meson eq_key_imp_eq_value)
    then show "(k, v) \<in> set d" using d by simp
  next
    assume "(k, v) \<in> set d"
    then show "k \<in> fst ` set d" by force
  qed
  then show "(case e of (k, v) \<Rightarrow> k \<notin> fst ` set d) = (e \<notin> set d)"
    by (simp add: kv)
qed

lemma cleanupCache_expired_filter:
  assumes "distinct (map fst c)"
  shows "cleanupCache_expired now c
           = filter (\<lambda>e. \<not> now - timestamp (snd e) > CACHE_EXPIRY) c"
proof -
  let ?d = "filter (\<lambda>e. now - timestamp (snd e) > CACHE_EXPIRY) c"
  have "cleanupCache_expired now c
          = filter (\<lambda>(k, v). k \<notin> fst ` set ?d) c"
    unfolding cleanupCache_expired_def fold_delete_if by simp
  also have "\<dots> = filter (\<lambda>e. e \<notin> set ?d) c"
    using assms by (rule filter_keys_distinct) simp
  also have "\<dots> = filter (\<lambda>e. \<not> now - timestamp (snd e) > CACHE_EXPIRY) c"
    by (rule filter_cong) auto
  finally show ?thesis .
qed

lemma cleanupCache_limit_small:
  "length c \<le> 100 \<Longrightarrow> cleanupCache_limit c = c"
  by (simp add: cleanupCache_limit_def)

lemma cleanupCache_limit_big:
  assumes dist: "distinct (map fst c)" and big: "length c > 100"
  shows "mset (cleanupCache_limit c) = mset (drop (length c - 100) (sort_key by_time c))"
    and "set c - set (cleanupCache_limit c) = set (take (length c - 100) (sort_key by_time c))"
proof -
  let ?s = "sort_key by_time c"
  let ?n = "length c - 100"
  have srt: "js_sort (\<lambda>a b. timestamp (snd a) - timestamp (snd b)) c = ?s"
    using js_sort_sort_key [of by_time c] by (simp add: by_time_def)
  have dc: "distinct c" using dist by (rule distinct_map [THEN iffD1, THEN conjunct1])
  have ds: "distinct ?s" using dc by simp
  have sub: "set (take ?n ?s) \<subseteq> set c"
    using set_take_subset [of ?n ?s] by simp
  have "cleanupCache_limit c = filter (\<lambda>(k, v). k \<notin> fst ` set (take ?n ?s)) c"
    using big by (simp add: cleanupCache_limit_def srt Let_def fold_delete_all)
  also have "\<dots> = filter (\<lambda>e. e \<notin> set (take ?n ?s)) c"
    using dist sub by (rule filter_keys_distinct)
  finally have eq: "cleanupCache_limit c = filter (\<lambda>e. e \<notin> set (take ?n ?s)) c" .
  have disj: "set (take ?n ?s) \<inter> set (drop ?n ?s) = {}"
    using ds by (rule set_take_disj_set_drop_if_distinct) simp
  have split: "mset c = mset (take ?n ?s) + mset (drop ?n ?s)"
    by (metis append_take_drop_id mset_append mset_sort)
  have "mset (filter (\<lambda>e. e \<notin> set (take ?n ?s)) c)
      = filter_mset (\<lambda>e. e \<notin> set (take ?n ?s)) (mset c)"
    by (rule mset_filter)
  also have "\<dots> = filter_mset (\<lambda>e. e \<notin> set (take ?n ?s))
                      (mset (take ?n ?s) + mset (drop ?n ?s))"
    using split by (rule arg_cong)
  also have "\<dots> = filter_mset (\<lambda>e. e \<notin> set (take ?n ?s)) (mset (take ?n ?s))
        + filter_mset (\<lambda>e. e \<notin> set (take ?n ?s)) (mset (drop ?n ?s))"
    by (rule filter_union_mset)
  also have "filter_mset (\<lambda>e. e \<notin> set (take ?n ?s)) (mset (take ?n ?s)) = {#}"
    by (simp add: filter_mset_eq_conv)
  also have "filter_mset (\<lambda>e. e \<notin> set (take ?n ?s)) (mset (drop ?n ?s)) = mset (drop ?n ?s)"
    using disj by (auto simp: filter_mset_eq_conv)
  finally show "mset (cleanupCache_limit c) = mset (drop ?n ?s)"
    unfolding eq by simp
  show "set c - set (cleanupCache_limit c) = set (take ?n ?s)"
    unfolding eq using sub by auto
qed

lemma sorted_take_le_drop:
  assumes "x \<in> set (take n (sort_key f xs))" "y \<in> set (drop n (sort_key f xs))"
  shows "f x \<le> f y"
proof -
  have "sorted (map f (take n (sort_key f xs) @ drop n (sort_key f xs)))"
    by simp
  then show ?thesis
    unfolding map_append sorted_append using assms by auto
qed

lemma cleanupCache_capacity:
  assumes dist: "distinct (map fst cache)"
  shows "length (cleanupCache now cache) \<le> 100
       \<and> set (cleanupCache now cache) \<subseteq> set cache
       \<and> (\<forall>gone \<in> set cache - set (cleanupCache now cache).
            \<forall>kept \<in> set (cleanupCache now cache).
              timestamp (snd gone) \<le> timestamp (snd kept))
       \<and> (\<forall>gone \<in> set cache - set (cleanupCache now cache).
            now - timestamp (snd gone) > CACHE_EXPIRY
            \<or> length (cleanupCache now cache) = 100)"
proof -
  define c1 where "c1 = cleanupCache_expired now cache"
  have c1: "c1 = filter (\<lambda>e. \<not> now - timestamp (snd e) > CACHE_EXPIRY) cache"
    unfolding c1_def using dist by (rule cleanupCache_expired_filter)
  have d1: "distinct (map fst c1)"
    unfolding c1 using dist by (rule distinct_map_filter)
  have res: "cleanupCache now cache = cleanupCache_limit c1"
    by (simp add: cleanupCache_def c1_def)
  have sub1: "set c1 \<subseteq> set cache" by (auto simp: c1)
  have gone1: "now - timestamp (snd e) > CACHE_EXPIRY" if "e \<in> set cache - set c1" for e
    using that by (auto simp: c1)
  have fresh1: "\<not> now - timestamp (snd e) > CACHE_EXPIRY" if "e \<in> set c1" for e
    using that by (auto simp: c1)
  show ?thesis
  proof (cases "length c1 \<le> 100")
    case True
    then have eq: "cleanupCache now cache = c1"
      by (simp add: res cleanupCache_limit_small)
    show ?thesis
      unfolding eq using True sub1 gone1 fresh1 by fastforce
  next
    case False
    then have big: "length c1 > 100" by simp
    let ?n = "length c1 - 100"
    let ?s = "sort_key by_time c1"
    have m: "mset (cleanupCache_limit c1) = mset (drop ?n ?s)"
      and g: "set c1 - set (cleanupCache_limit c1) = set (take ?n ?s)"
      using cleanupCache_limit_big [OF d1 big] by blast+
    have "length (cleanupCache_limit c1) = length (drop ?n ?s)"
      using m by (metis size_mset)
    then have len: "length (cleanupCache_limit c1) = 100"
      using big by simp
    have keep: "set (cleanupCache_limit c1) = set (drop ?n ?s)"
      using m by (metis set_mset_mset)
    have sub2: "set (cleanupCache_limit c1) \<subseteq> set c1"
      unfolding keep using set_drop_subset [of ?n ?s] by simp
    have order: "timestamp (snd gone) \<le> timestamp (snd kept)"
      if "gone \<in> set cache - set (cleanupCache_limit c1)" "kept \<in> set (cleanupCache_limit c1)"
      for gone kept
    proof (cases "gone \<in> set c1")
      case True
      then have "gone \<in> set (take ?n ?s)" using that(1) g by blast
      moreover have "kept \<in> set (drop ?n ?s)" using that(2) keep by simp
      ultimately have "by_time gone \<le> by_time kept" by (rule sorted_take_le_drop)
      then show ?thesis by (simp add: by_time_def)
    next
      case False
      then have "now - timestamp (snd gone) > CACHE_EXPIRY" using that(1) gone1 by blast
      moreover have "\<not> now - timestamp (snd kept) > CACHE_EXPIRY"
        using that(2) sub2 fresh1 by blast
      ultimately show ?thesis by simp
    qed
    show ?thesis
      unfolding res using len sub1 sub2 order by auto
  qed
qed

lemma distinct_big_cache: "distinct (map fst big_cache)"
proof -
  have "map fst big_cache = map (\<lambda>i. replicate (Suc i) CHR ''k'') [0..<101]"
    by (simp add: big_cache_def comp_def)
  moreover have "inj_on (\<lambda>i. replicate (Suc i) CHR ''k'') (set [0..<101])"
    by (rule inj_onI) (metis length_replicate nat.inject)
  ultimately show ?thesis by (simp add: distinct_map)
qed

lemma fold_map_set_distinct:
  "distinct (map fst m) \<Longrightarrow>
   distinct (map fst (fold (\<lambda>(key, value) m. map_set m key value) ins m))"
proof (induction ins arbitrary: m)
  case Nil
  then show ?case by simp
next
  case (Cons x ins)
  obtain k v where x: "x = (k, v)" by (cases x)
  have "distinct (map fst (map_set m k v))"
    using Cons.prems by (simp add: map_set_def distinct_update)
  then show ?case unfolding x by (simp add: Cons.IH)
qed

lemma inserted_distinct: "distinct (map fst (inserted ins))"
  unfolding inserted_def by (rule fold_map_set_distinct) simp

lemma map_set_new: "k \<notin> fst ` set m \<Longrightarrow> map_set m k v = m @ [(k, v)]"
  unfolding map_set_def by (induction m) auto

lemma fold_map_set_append:
  "distinct (map fst (m @ ins)) \<Longrightarrow>
   fold (\<lambda>(key, value) m. map_set m key value) ins m = m @ ins"
proof (induction ins arbitrary: m)
  case Nil
  show ?case by simp
next
  case (Cons x ins)
  obtain k v where x: "x = (k, v)" by (cases x)
  have new: "k \<notin> fst ` set m" using Cons.prems by (auto simp: x)
  have "distinct (map fst ((m @ [(k, v)]) @ ins))" using Cons.prems by (simp add: x)
  then have "fold (\<lambda>(key, value) m. map_set m key value) ins (m @ [(k, v)]) = (m @ [(k, v)]) @ ins"
    by (rule Cons.IH)
  then show ?case by (simp add: x map_set_new [OF new])
qed

lemma inserted_id: "distinct (map fst ins) \<Longrightarrow> inserted ins = ins"
  unfolding inserted_def using fold_map_set_append [of "[]" ins] by simp

text \<open>
  Claim C5.  For the cache that any sequence of insertions (calls of \<open>Map.set\<close> from the
  empty map) leaves, \<open>cleanupCache\<close> keeps at most 100 entries, keeps them unchanged, and
  removes only the oldest: every entry it removes has a timestamp no later than that of
  every entry it keeps.  It removes no more than needed: an entry that is removed is
  older than \<open>CACHE_EXPIRY\<close>, or exactly 100 entries are left.
\<close>

theorem C5_capacity:
  "length (cleanupCache now (inserted ins)) \<le> 100
   \<and> set (cleanupCache now (inserted ins)) \<subseteq> set (inserted ins)
   \<and> (\<forall>gone \<in> set (inserted ins) - set (cleanupCache now (inserted ins)).
        \<forall>kept \<in> set (cleanupCache now (inserted ins)).
          timestamp (snd gone) \<le> timestamp (snd kept))
   \<and> (\<forall>gone \<in> set (inserted ins) - set (cleanupCache now (inserted ins)).
        now - timestamp (snd gone) > CACHE_EXPIRY
        \<or> length (cleanupCache now (inserted ins)) = 100)"
  using inserted_distinct by (rule cleanupCache_capacity)

text \<open>Witness for C5: 101 entries, none expired, of which one has to go.\<close>

theorem C5_capacity_witness:
  "inserted big_cache = big_cache
   \<and> length (inserted big_cache) = 101
   \<and> length (cleanupCache 0 (inserted big_cache)) \<le> 100
   \<and> set (cleanupCache 0 (inserted big_cache)) \<subseteq> set (inserted big_cache)
   \<and> set (inserted big_cache) - set (cleanupCache 0 (inserted big_cache)) \<noteq> {}"
proof -
  have i: "inserted big_cache = big_cache"
    using distinct_big_cache by (rule inserted_id)
  have l: "length big_cache = 101" by (simp add: big_cache_def)
  have d: "distinct big_cache"
    using distinct_big_cache by (rule distinct_map [THEN iffD1, THEN conjunct1])
  have c: "length (cleanupCache 0 (inserted big_cache)) \<le> 100"
    and s: "set (cleanupCache 0 (inserted big_cache)) \<subseteq> set (inserted big_cache)"
    using C5_capacity [of 0 big_cache] by blast+
  have "card (set (cleanupCache 0 big_cache)) \<le> 100"
    using c card_length [of "cleanupCache 0 big_cache"] by (simp add: i)
  moreover have "card (set big_cache) = 101"
    using d l by (simp add: distinct_card)
  ultimately have "set big_cache \<noteq> set (cleanupCache 0 big_cache)" by auto
  then have "set big_cache - set (cleanupCache 0 big_cache) \<noteq> {}"
    using s by (auto simp: i)
  then show ?thesis using i l c s by simp
qed

text \<open>
  Claim C6 at its boundary: an entry whose age equals \<open>CACHE_EXPIRY\<close> exactly stays in
  the cache after the first pass (the test of line 1736 is a strict greater-than), although the
  probe of \<open>performSearch\<close>, line 933, already treats it as expired.
\<close>

theorem C6_expiry_boundary:
  "cleanupCache_expired 3600000 boundary_cache = boundary_cache
   \<and> cleanupCache 3600000 boundary_cache = boundary_cache
   \<and> \<not> cacheFresh (demo_app\<lparr>searchCache := boundary_cache\<rparr>) ''url_http://x.com/img.png'' 3600000"
  by (simp add: cleanupCache_def cleanupCache_expired_def cleanupCache_limit_def boundary_cache_def
        cacheFresh_def map_get_def CACHE_EXPIRY_def)

text \<open>
  Claim C8.  \<open>isValidImageFile\<close> accepts a file exactly when its type is one of the
  supported MIME types (JPEG under both of its names) and its size is at most 25 MB,
  whatever the integrity check and the quality assessment give.  A failed decode gives the
  quality 0.5, which is below the threshold: the file is then accepted with a warning.
\<close>

theorem C8_validation:
  "accepted (isValidImageFile f integrity decoded)
     = (file_type f \<in> {''image/jpeg'', ''image/jpg'', ''image/png'', ''image/gif'',
                        ''image/webp'', ''image/bmp'', ''image/avif''}
        \<and> file_size f \<le> 26214400)
   \<and> assessImageQuality None = Some (1 / 2)
   \<and> isValidImageFile f True None
       = (if file_type f \<in> set SUPPORTED_FORMATS \<and> file_size f \<le> MAX_FILE_SIZE
          then \<lparr>accepted = True, statuses = [LowQuality]\<rparr>
          else if file_type f \<in> set SUPPORTED_FORMATS
          then \<lparr>accepted = False, statuses = [FileTooLarge]\<rparr>
          else \<lparr>accepted = False, statuses = [UnsupportedFileType]\<rparr>)"
proof -
  have a: "accepted (isValidImageFile f integrity decoded)
     = (file_type f \<in> set SUPPORTED_FORMATS \<and> file_size f \<le> MAX_FILE_SIZE)"
    by (simp add: isValidImageFile_def split: option.splits)
  have s: "set SUPPORTED_FORMATS = {''image/jpeg'', ''image/jpg'', ''image/png'', ''image/gif'',
                        ''image/webp'', ''image/bmp'', ''image/avif''}"
    by (simp add: SUPPORTED_FORMATS_def)
  have m: "MAX_FILE_SIZE = 26214400" by (simp add: MAX_FILE_SIZE_def)
  have q: "assessImageQuality None = Some (1 / 2)" by (simp add: assessImageQuality_def)
  have w: "isValidImageFile f True None
       = (if file_type f \<in> set SUPPORTED_FORMATS \<and> file_size f \<le> MAX_FILE_SIZE
          then \<lparr>accepted = True, statuses = [LowQuality]\<rparr>
          else if file_type f \<in> set SUPPORTED_FORMATS
          then \<lparr>accepted = False, statuses = [FileTooLarge]\<rparr>
          else \<lparr>accepted = False, statuses = [UnsupportedFileType]\<rparr>)"
    by (simp add: isValidImageFile_def q IMAGE_QUALITY_THRESHOLD_def)
  show ?thesis using a q w unfolding s m by blast
qed

text \<open>
  Claim C9.  The list that \<open>displayResults\<close> renders is in descending order of
  similarity, holds only matches of the input with similarity above 0.1 (each at most as
  often as the input has it), has 10 elements or all such matches if they are fewer, and
  every such match left out has a similarity no higher than any match shown.
\<close>

theorem C9_ranked:
  "sorted_wrt (\<lambda>a b. similarity a \<ge> similarity b) (displayResults results)
   \<and> length (displayResults results)
       = min 10 (length (filter (\<lambda>m. similarity m > 1 / 10) results))
   \<and> mset (displayResults results) \<subseteq># mset (filter (\<lambda>m. similarity m > 1 / 10) results)
   \<and> (\<forall>x \<in># mset (filter (\<lambda>m. similarity m > 1 / 10) results) - mset (displayResults results).
        \<forall>y \<in> set (displayResults results). similarity x \<le> similarity y)"
proof -
  let ?c = "filter (\<lambda>m. similarity m > 1 / 10) results"
  let ?g = "\<lambda>m::rawmatch. - similarity m"
  let ?s = "sort_key ?g ?c"
  have d: "displayResults results = take 10 ?s"
    by (simp add: displayResults_def js_sort_descending)
  have "sorted (take 10 (map ?g ?s))"
    using sorted_sort_key [of ?g ?c] by (rule sorted_wrt_take)
  then have a: "sorted_wrt (\<lambda>a b. similarity a \<ge> similarity b) (take 10 ?s)"
    by (simp add: take_map sorted_map)
  have b: "length (take 10 ?s) = min 10 (length ?c)" by simp
  have split: "mset ?c = mset (take 10 ?s) + mset (drop 10 ?s)"
    by (metis append_take_drop_id mset_append mset_sort)
  have c: "mset (take 10 ?s) \<subseteq># mset ?c"
    unfolding split by simp
  have rest: "mset ?c - mset (take 10 ?s) = mset (drop 10 ?s)"
    unfolding split by simp
  have e: "similarity x \<le> similarity y"
    if "x \<in># mset ?c - mset (take 10 ?s)" "y \<in> set (take 10 ?s)" for x y
  proof -
    have "x \<in> set (drop 10 ?s)" using that(1) unfolding rest by simp
    with that(2) have "?g y \<le> ?g x" by (rule sorted_take_le_drop)
    then show ?thesis by simp
  qed
  show ?thesis unfolding d using a b c e by blast
qed

text \<open>Witness for C9: two matches at or below 0.1 are dropped, a tie keeps its order.\<close>

theorem C9_ranked_witness:
  "displayResults demo_results
     = [\<lparr>similarity = 95 / 100, filename = ''d''\<rparr>,
        \<lparr>similarity = 40 / 100, filename = ''b''\<rparr>,
        \<lparr>similarity = 40 / 100, filename = ''e''\<rparr>]
   \<and> sorted_wrt (\<lambda>a b. similarity a \<ge> similarity b) (displayResults demo_results)
   \<and> length (displayResults demo_results)
       = min 10 (length (filter (\<lambda>m. similarity m > 1 / 10) demo_results))"
proof -
  have "displayResults demo_results
     = [\<lparr>similarity = 95 / 100, filename = ''d''\<rparr>,
        \<lparr>similarity = 40 / 100, filename = ''b''\<rparr>,
        \<lparr>similarity = 40 / 100, filename = ''e''\<rparr>]"
    by (simp add: displayResults_def demo_results_def)
  then show ?thesis using C9_ranked [of demo_results] by blast
qed

end
